theory Spec2Isabelle
  imports Main "HOL-Library.AList"
begin

section \<open>Data model of the URL shortener (server part)\<close>

text \<open>
  Strings are lists of characters, counters are natural numbers. The two global
  \<open>Map\<close>s are association lists in insertion order; \<open>Map.set\<close> is \<open>AList.update\<close>
  (an existing key keeps its place, a new key goes to the end), \<open>Map.get\<close> is
  \<open>map_of\<close>. The field \<open>id\<close> of a stored URL is called \<open>ident\<close> here.

  A reading of the clock (\<open>new Date()\<close>, \<open>Date.now()\<close>) is a time value: a whole
  number of milliseconds since the epoch. A \<open>Date\<close> built from a number holds that
  number when it is at most 8.64e15 in absolute value, and is an Invalid Date otherwise.
  Compared with an Invalid Date, every reading is neither \<open><=\<close> nor \<open>>\<close>.
\<close>

datatype date = Date int | InvalidDate

definition makeDate :: "int \<Rightarrow> date" where
  "makeDate tv = (if \<bar>tv\<bar> \<le> 8640000000000000 then Date tv else InvalidDate)"

text \<open>\<open>new Date() <= d\<close> and \<open>new Date() > d\<close>, for the reading \<open>now\<close>.\<close>

definition notAfter :: "int \<Rightarrow> date \<Rightarrow> bool" where
  "notAfter now d = (case d of Date e \<Rightarrow> now \<le> e | InvalidDate \<Rightarrow> False)"

definition isAfter :: "int \<Rightarrow> date \<Rightarrow> bool" where
  "isAfter now d = (case d of Date e \<Rightarrow> now > e | InvalidDate \<Rightarrow> False)"

record urlData =
  ident :: string
  originalUrl :: string
  shortCode :: string
  createdAt :: int
  expiryDate :: date
  createdBy :: string
  isActive :: bool
  validityPeriod :: int

record click =
  timestamp :: int
  ip :: string
  userAgent :: string
  location :: "string option"

record analytics =
  totalClicks :: nat
  clicks :: "click list"

record server =
  urlDatabase :: "(string \<times> urlData) list"
  clickAnalytics :: "(string \<times> analytics) list"

definition initial :: server where
  "initial = \<lparr>urlDatabase = [], clickAnalytics = []\<rparr>"

text \<open>
  Every way a handler can end without its success payload. The first six are the
  validation failures of \<open>POST /api/shorten\<close> (status 400 and 429);
  \<open>CallStackExceeded\<close> is the engine's \<open>RangeError\<close> (Maximum call stack size
  exceeded) thrown out of \<open>generateShortCode\<close>, which the handler catches with the
  custom-code failures and answers with status 400; the next two are the failures of
  \<open>GET /:shortCode\<close> (404, and 410 carrying \<open>expiredAt\<close>); the last is the
  handlers' catch-all (500).
\<close>

datatype error =
    MissingUrl
  | InvalidUrl
  | QuotaExceeded
  | InvalidShortcodeFormat
  | InvalidShortcodeLength
  | ShortcodeCollision
  | CallStackExceeded
  | ShortCodeNotFound
  | ShortCodeExpired date
  | InternalServerError

definition has :: "(string \<times> 'v) list \<Rightarrow> string \<Rightarrow> bool" where
  "has m k = (map_of m k \<noteq> None)"

section \<open>generateShortCode\<close>

text \<open>The test \<open>/^[a-zA-Z0-9_-]+$/\<close>: one or more characters, each of the class.\<close>

definition inClass :: "char \<Rightarrow> bool" where
  "inClass c = (let n = (of_char c :: nat) in
      (97 \<le> n \<and> n \<le> 122) \<or> (65 \<le> n \<and> n \<le> 90) \<or> (48 \<le> n \<and> n \<le> 57)
      \<or> c = CHR ''_'' \<or> c = CHR ''-'')"

definition matchesClass :: "string \<Rightarrow> bool" where
  "matchesClass s = (s \<noteq> [] \<and> list_all inClass s)"

definition chars :: string where
  "chars = ''abcdefghijklmnopqrstuvwxyzABCDEFGHIJKLMNOPQRSTUVWXYZ0123456789''"

text \<open>\<open>String.charAt\<close>: the empty string outside the range.\<close>

definition charAt :: "string \<Rightarrow> nat \<Rightarrow> string" where
  "charAt s i = (if i < length s then [s ! i] else [])"

text \<open>
  The random source: \<open>rs i\<close> is the value of
  \<open>Math.floor(Math.random() * chars.length)\<close> at the \<open>i\<close>-th evaluation from now on.
  \<open>rest rs\<close> is the source after one run of the six-step loop.
\<close>

type_synonym rng = "nat \<Rightarrow> nat"

definition inRange :: "rng \<Rightarrow> bool" where
  "inRange rs = (\<forall>i. rs i < length chars)"

definition drawCode :: "rng \<Rightarrow> string" where
  "drawCode rs = foldl (\<lambda>result i. result @ charAt chars (rs i)) [] [0..<6]"

definition rest :: "rng \<Rightarrow> rng" where
  "rest rs = (\<lambda>i. rs (i + 6))"

text \<open>A JavaScript string or \<open>null\<close>/\<open>undefined\<close> used as a condition.\<close>

definition truthy :: "string option \<Rightarrow> bool" where
  "truthy v = (case v of None \<Rightarrow> False | Some s \<Rightarrow> s \<noteq> [])"

text \<open>
  The function reads the global \<open>urlDatabase\<close>, here its second argument. It calls
  itself on every collision, one stack frame deeper each time; the engine ends this with a
  \<open>RangeError\<close> when the call stack is full. \<open>stack\<close> is the number of further
  nested calls of the function, each with the calls it makes itself, that the call stack
  has room for when the function is entered: a number of the engine and of the moment, not
  of the program.
\<close>

function generateShortCode ::
  "nat \<Rightarrow> (string \<times> urlData) list \<Rightarrow> string option \<Rightarrow> rng \<Rightarrow> error + string" where
  "generateShortCode stack db customCode rs =
     (if truthy customCode then
        (if \<not> matchesClass (the customCode) then Inl InvalidShortcodeFormat
         else if length (the customCode) < 3 \<or> length (the customCode) > 20
           then Inl InvalidShortcodeLength
         else if has db (the customCode) then Inl ShortcodeCollision
         else Inr (the customCode))
      else if has db (drawCode rs) then
        (if stack = 0 then Inl CallStackExceeded
         else generateShortCode (stack - 1) db None (rest rs))
      else Inr (drawCode rs))"
  by pat_completeness auto
termination
  by (relation "measure (\<lambda>(stack, db, customCode, rs). stack)") auto

declare generateShortCode.simps [simp del]

section \<open>The request handlers\<close>

text \<open>
  A handler takes the state of the two maps and returns it with its answer. The calls to
  the logger are left out: the logger is an \<open>async\<close> function that touches neither map,
  and nothing it does is thrown into a handler.

  The platform's URL parser is a parameter: \<open>parse s\<close> is the \<open>protocol\<close> of
  \<open>new URL(s)\<close>, and \<open>None\<close> where the constructor throws.
\<close>

definition isValidUrl :: "(string \<Rightarrow> string option) \<Rightarrow> string \<Rightarrow> bool" where
  "isValidUrl parse s =
     (case parse s of None \<Rightarrow> False | Some protocol \<Rightarrow> protocol = ''http:'' \<or> protocol = ''https:'')"

text \<open>
  Each evaluation of \<open>new Date()\<close> or \<open>Date.now()\<close> is a reading of its own. In
  \<open>POST /api/shorten\<close>: \<open>atFilter i\<close> is the reading the quota filter takes at the
  \<open>i\<close>-th stored record, \<open>atExpiry\<close> the one the expiry date is computed from,
  \<open>atCreated\<close> the one stored as \<open>createdAt\<close>.
\<close>

record shortenClock =
  atFilter :: "nat \<Rightarrow> int"
  atExpiry :: int
  atCreated :: int

definition userUrls :: "(nat \<Rightarrow> int) \<Rightarrow> string \<Rightarrow> (string \<times> urlData) list \<Rightarrow> urlData list" where
  "userUrls now clientIP db =
     map snd (filter (\<lambda>(i, url). createdBy url = clientIP \<and> notAfter (now i) (expiryDate url))
                     (enumerate 0 (map snd db)))"

text \<open>
  \<open>POST /api/shorten\<close>. The body's fields are optional (\<open>None\<close> is a missing or
  \<open>null\<close> field); the validity period is the whole number of minutes the parsed body
  holds; \<open>uuid\<close> is the value of \<open>uuidv4()\<close>; \<open>stack\<close> is the room on the call stack
  when \<open>generateShortCode\<close> is called. The handler computes the expiry time in floating
  point; with clock readings within 3.6e14 ms of the epoch that computation is exact
  whenever its result is a valid date, and is outside the range of a date otherwise.
\<close>

definition shorten ::
  "(string \<Rightarrow> string option) \<Rightarrow> string option \<Rightarrow> string option \<Rightarrow> int option \<Rightarrow> string \<Rightarrow>
     shortenClock \<Rightarrow> nat \<Rightarrow> rng \<Rightarrow> string \<Rightarrow> server \<Rightarrow> (error + urlData) \<times> server" where
  "shorten parse url customShortcode validity clientIP clk stack rs uuid s =
     (if \<not> truthy url then (Inl MissingUrl, s)
      else if \<not> isValidUrl parse (the url) then (Inl InvalidUrl, s)
      else if length (userUrls (atFilter clk) clientIP (urlDatabase s)) \<ge> 5
        then (Inl QuotaExceeded, s)
      else
        (case generateShortCode stack (urlDatabase s) customShortcode rs of
           Inl e \<Rightarrow> (Inl e, s)
         | Inr code \<Rightarrow>
             (let validityMinutes = (case validity of None \<Rightarrow> 30 | Some v \<Rightarrow> if v = 0 then 30 else v);
                  expiry = makeDate (atExpiry clk + validityMinutes * 60 * 1000);
                  data = \<lparr>ident = uuid, originalUrl = the url, shortCode = code,
                          createdAt = atCreated clk, expiryDate = expiry, createdBy = clientIP,
                          isActive = True, validityPeriod = validityMinutes\<rparr>
              in (Inr data,
                  s\<lparr>urlDatabase := AList.update code data (urlDatabase s),
                    clickAnalytics := AList.update code \<lparr>totalClicks = 0, clicks = []\<rparr>
                                        (clickAnalytics s)\<rparr>))))"

text \<open>
  \<open>getCoarseLocation\<close>, with \<open>r\<close> the value of
  \<open>Math.floor(Math.random() * mockLocations.length)\<close>; an index outside the array reads
  \<open>undefined\<close>.
\<close>

definition mockLocations :: "string list" where
  "mockLocations = [''New York, US'', ''London, UK'', ''Tokyo, JP'', ''Mumbai, IN'', ''Sydney, AU'']"

definition getCoarseLocation :: "nat \<Rightarrow> string option" where
  "getCoarseLocation r = (if r < length mockLocations then Some (mockLocations ! r) else None)"

text \<open>
  \<open>GET /:shortCode\<close>: \<open>atCheck\<close> is the reading compared with the expiry date,
  \<open>atClick\<close> the one stored in the click. Reading \<open>totalClicks\<close> of a missing analytics
  entry throws before anything is written, and the handler's catch-all answers 500.
\<close>

record redirectClock =
  atCheck :: int
  atClick :: int

definition redirect ::
  "string \<Rightarrow> string \<Rightarrow> string \<Rightarrow> redirectClock \<Rightarrow> nat \<Rightarrow> server \<Rightarrow> (error + string) \<times> server" where
  "redirect code clientIP agent clk r s =
     (case map_of (urlDatabase s) code of
        None \<Rightarrow> (Inl ShortCodeNotFound, s)
      | Some data \<Rightarrow>
          if isAfter (atCheck clk) (expiryDate data)
          then (Inl (ShortCodeExpired (expiryDate data)), s)
          else
            (case map_of (clickAnalytics s) code of
               None \<Rightarrow> (Inl InternalServerError, s)
             | Some a \<Rightarrow>
                 (Inr (originalUrl data),
                  s\<lparr>clickAnalytics :=
                      AList.update code
                        (a\<lparr>totalClicks := totalClicks a + 1,
                           clicks := clicks a @ [\<lparr>timestamp = atClick clk, ip = clientIP,
                                                  userAgent = agent,
                                                  location = getCoarseLocation r\<rparr>]\<rparr>)
                        (clickAnalytics s)\<rparr>)))"

text \<open>The expiry test the handlers write as \<open>new Date() > url.expiryDate\<close>.\<close>

definition isExpired :: "urlData \<Rightarrow> int \<Rightarrow> bool" where
  "isExpired data now = isAfter now (expiryDate data)"

text \<open>The analytics a reading handler falls back to: \<open>{ totalClicks: 0, clicks: [] }\<close>.\<close>

definition analyticsOr :: "(string \<times> analytics) list \<Rightarrow> string \<Rightarrow> analytics" where
  "analyticsOr m code =
     (case map_of m code of None \<Rightarrow> \<lparr>totalClicks = 0, clicks = []\<rparr> | Some a \<Rightarrow> a)"

text \<open>\<open>GET /api/urls\<close>: one row per record, with the reading taken at that record.\<close>

definition listUrls ::
  "(nat \<Rightarrow> int) \<Rightarrow> server \<Rightarrow> (urlData \<times> nat \<times> bool \<times> (int \<times> string option) list) list" where
  "listUrls now s =
     map (\<lambda>(i, url).
            (let a = analyticsOr (clickAnalytics s) (shortCode url)
             in (url, totalClicks a, isExpired url (now i),
                 map (\<lambda>c. (timestamp c, location c)) (clicks a))))
         (enumerate 0 (map snd (urlDatabase s)))"

text \<open>\<open>GET /api/analytics/:shortCode\<close>.\<close>

definition getAnalytics ::
  "string \<Rightarrow> int \<Rightarrow> server \<Rightarrow> error + (urlData \<times> nat \<times> click list \<times> bool)" where
  "getAnalytics code now s =
     (case map_of (urlDatabase s) code of
        None \<Rightarrow> Inl ShortCodeNotFound
      | Some data \<Rightarrow>
          (let a = analyticsOr (clickAnalytics s) code
           in Inr (data, totalClicks a, clicks a, isExpired data now)))"

text \<open>\<open>GET /api/health\<close>: \<open>totalUrls\<close> and \<open>activeUrls\<close>.\<close>

definition health :: "(nat \<Rightarrow> int) \<Rightarrow> server \<Rightarrow> nat \<times> nat" where
  "health now s =
     (length (urlDatabase s),
      length (filter (\<lambda>(i, url). notAfter (now i) (expiryDate url))
                     (enumerate 0 (map snd (urlDatabase s)))))"

section \<open>The server as a transition system\<close>

datatype request =
    PostShorten "string option" "string option" "int option" string shortenClock nat rng string
  | GetUrls "nat \<Rightarrow> int"
  | GetAnalytics string int
  | GetRedirect string string string redirectClock nat
  | GetHealth "nat \<Rightarrow> int"

datatype response =
    Failure error
  | Shortened urlData
  | UrlList "(urlData \<times> nat \<times> bool \<times> (int \<times> string option) list) list"
  | AnalyticsOf urlData nat "click list" bool
  | Redirected string
  | HealthOf nat nat

fun handle :: "(string \<Rightarrow> string option) \<Rightarrow> request \<Rightarrow> server \<Rightarrow> response \<times> server" where
  "handle parse (PostShorten url custom validity clientIP clk stack rs uuid) s =
     (case shorten parse url custom validity clientIP clk stack rs uuid s of
        (Inl e, s') \<Rightarrow> (Failure e, s')
      | (Inr data, s') \<Rightarrow> (Shortened data, s'))"
| "handle parse (GetUrls now) s = (UrlList (listUrls now s), s)"
| "handle parse (GetAnalytics code now) s =
     (case getAnalytics code now s of
        Inl e \<Rightarrow> (Failure e, s)
      | Inr (data, n, cs, ex) \<Rightarrow> (AnalyticsOf data n cs ex, s))"
| "handle parse (GetRedirect code clientIP agent clk r) s =
     (case redirect code clientIP agent clk r s of
        (Inl e, s') \<Rightarrow> (Failure e, s')
      | (Inr url, s') \<Rightarrow> (Redirected url, s'))"
| "handle parse (GetHealth now) s = (case health now s of (n, k) \<Rightarrow> (HealthOf n k, s))"

text \<open>
  \<open>during t req t'\<close>: every clock reading the handler of \<open>req\<close> takes lies between
  \<open>t\<close> and \<open>t'\<close>, and the readings of one handler do not go back in program order.
\<close>

fun during :: "int \<Rightarrow> request \<Rightarrow> int \<Rightarrow> bool" where
  "during t (PostShorten url custom validity clientIP clk stack rs uuid) t' =
     ((\<forall>i. t \<le> atFilter clk i \<and> atFilter clk i \<le> atExpiry clk)
      \<and> atExpiry clk \<le> atCreated clk \<and> atCreated clk \<le> t')"
| "during t (GetUrls now) t' = (\<forall>i. t \<le> now i \<and> now i \<le> t')"
| "during t (GetAnalytics code now) t' = (t \<le> now \<and> now \<le> t')"
| "during t (GetRedirect code clientIP agent clk r) t' =
     (t \<le> atCheck clk \<and> atCheck clk \<le> atClick clk \<and> atClick clk \<le> t')"
| "during t (GetHealth now) t' = (\<forall>i. t \<le> now i \<and> now i \<le> t')"

text \<open>
  \<open>reachable parse t s\<close>: the server started with both maps empty, has answered a
  sequence of requests, is in state \<open>s\<close>, and no clock reading so far was later than \<open>t\<close>.
\<close>

inductive reachable :: "(string \<Rightarrow> string option) \<Rightarrow> int \<Rightarrow> server \<Rightarrow> bool"
  for parse :: "string \<Rightarrow> string option" where
  start: "reachable parse t initial"
| step: "reachable parse t s \<Longrightarrow> during t req t' \<Longrightarrow> handle parse req s = (resp, s')
           \<Longrightarrow> reachable parse t' s'"

text \<open>
  The records of one creator that are still active at \<open>now\<close>
  (\<open>createdBy == creatorId\<close> and \<open>now <= expiryDate\<close>): what the quota is about.
\<close>

definition activeFor :: "(string \<times> urlData) list \<Rightarrow> string \<Rightarrow> int \<Rightarrow> urlData list" where
  "activeFor db creator now =
     filter (\<lambda>url. createdBy url = creator \<and> notAfter now (expiryDate url)) (map snd db)"

text \<open>The random source after \<open>k\<close> runs of the drawing loop.\<close>

definition after :: "nat \<Rightarrow> rng \<Rightarrow> rng" where
  "after k rs = (rest ^^ k) rs"

text \<open>The server answering a list of requests, one after the other.\<close>

fun run :: "(string \<Rightarrow> string option) \<Rightarrow> request list \<Rightarrow> server \<Rightarrow> server" where
  "run parse [] s = s"
| "run parse (req # reqs) s = run parse reqs (snd (handle parse req s))"

section \<open>A small example\<close>

text \<open>
  One client shortens \<open>https://example.com\<close> for five minutes at time 0, with a random
  source that draws index 0 every time, which spells the code \<open>aaaaaa\<close>.
\<close>

abbreviation exampleParse :: "string \<Rightarrow> string option" where
  "exampleParse \<equiv> (\<lambda>s. if s = ''https://example.com'' then Some ''https:'' else None)"

abbreviation exampleClock :: "int \<Rightarrow> shortenClock" where
  "exampleClock t \<equiv> \<lparr>atFilter = (\<lambda>i. t), atExpiry = t, atCreated = t\<rparr>"

abbreviation exampleRecord :: urlData where
  "exampleRecord \<equiv> \<lparr>ident = ''id1'', originalUrl = ''https://example.com'', shortCode = ''aaaaaa'',
      createdAt = 0, expiryDate = Date 300000, createdBy = ''10.0.0.1'', isActive = True,
      validityPeriod = 5\<rparr>"

abbreviation exampleState :: server where
  "exampleState \<equiv> \<lparr>urlDatabase = [(''aaaaaa'', exampleRecord)],
      clickAnalytics = [(''aaaaaa'', \<lparr>totalClicks = 0, clicks = []\<rparr>)]\<rparr>"

text \<open>
  The same client goes on to shorten it four more times; the random source of the
  \<open>k\<close>-th request draws index \<open>k\<close> every time. \<open>exampleAfter n\<close> is the server
  after the first \<open>n\<close> of these requests.
\<close>

abbreviation exampleCodes :: "string list" where
  "exampleCodes \<equiv> [''aaaaaa'', ''bbbbbb'', ''cccccc'', ''dddddd'', ''eeeeee'']"

abbreviation exampleAfter :: "nat \<Rightarrow> server" where
  "exampleAfter n \<equiv>
     \<lparr>urlDatabase = map (\<lambda>c. (c, exampleRecord\<lparr>shortCode := c\<rparr>)) (take n exampleCodes),
      clickAnalytics = map (\<lambda>c. (c, \<lparr>totalClicks = 0, clicks = []\<rparr>)) (take n exampleCodes)\<rparr>"

abbreviation exampleRequest :: "nat \<Rightarrow> request" where
  "exampleRequest k \<equiv> PostShorten (Some ''https://example.com'') None (Some 5) ''10.0.0.1''
                         (exampleClock 0) 8000 (\<lambda>i. k) ''id1''"

text \<open>
  Then a second client follows the first short link, one second after its creation;
  \<open>exampleClicked\<close> is the server after that.
\<close>

abbreviation exampleVisit :: request where
  "exampleVisit \<equiv> GetRedirect ''aaaaaa'' ''10.0.0.2'' ''curl'' \<lparr>atCheck = 1000, atClick = 1001\<rparr> 2"

abbreviation exampleEntry :: analytics where
  "exampleEntry \<equiv> \<lparr>totalClicks = 1,
      clicks = [\<lparr>timestamp = 1001, ip = ''10.0.0.2'', userAgent = ''curl'',
                 location = Some ''Tokyo, JP''\<rparr>]\<rparr>"

abbreviation exampleClicked :: server where
  "exampleClicked \<equiv> \<lparr>urlDatabase = [(''aaaaaa'', exampleRecord)],
      clickAnalytics = [(''aaaaaa'', exampleEntry)]\<rparr>"

text \<open>
  On a fresh server, the same request with a validity of -144000000001 minutes: the expiry
  time is below the range of a date, and the record holds an Invalid Date.
\<close>

abbreviation exampleUndatedRequest :: request where
  "exampleUndatedRequest \<equiv>
     PostShorten (Some ''https://example.com'') None (Some (- 144000000001)) ''10.0.0.1''
       (exampleClock 0) 8000 (\<lambda>i. 0) ''id1''"

abbreviation exampleUndated :: urlData where
  "exampleUndated \<equiv> exampleRecord\<lparr>expiryDate := InvalidDate, validityPeriod := - 144000000001\<rparr>"

abbreviation exampleUndatedState :: server where
  "exampleUndatedState \<equiv> \<lparr>urlDatabase = [(''aaaaaa'', exampleUndated)],
      clickAnalytics = [(''aaaaaa'', \<lparr>totalClicks = 0, clicks = []\<rparr>)]\<rparr>"

section \<open>Properties of the code generator\<close>

lemma length_drawCode: "inRange rs \<Longrightarrow> length (drawCode rs) = 6"
  by (simp add: drawCode_def inRange_def charAt_def upt_rec[of _ 6] del: upt_Suc)

lemma set_charAt: "set (charAt s i) \<subseteq> set s"
  by (auto simp: charAt_def)

lemma set_drawCode: "set (drawCode rs) \<subseteq> set chars"
proof -
  have "set (foldl (\<lambda>result i. result @ charAt chars (rs i)) acc is) \<subseteq> set acc \<union> set chars" for acc "is"
    using set_charAt[of chars] by (induction "is" arbitrary: acc) (simp, fastforce)
  from this[of "[]"] show ?thesis by (simp add: drawCode_def)
qed

lemma chars_inClass: "c \<in> set chars \<Longrightarrow> inClass c"
  by (auto simp: chars_def inClass_def)

lemma drawCode_inClass: "list_all inClass (drawCode rs)"
  using set_drawCode[of rs] chars_inClass by (auto simp: list_all_iff)

lemma after_0: "after 0 rs = rs"
  by (simp add: after_def)

lemma after_Suc: "after (Suc k) rs = after k (rest rs)"
  by (simp add: after_def funpow_swap1)

lemma after_apply: "after k rs i = rs (i + 6 * k)"
  by (induction k arbitrary: rs) (simp_all add: after_0 after_Suc rest_def ac_simps)

lemma class_codes:
  "list_all (\<lambda>k. char_of k \<in> set chars) ([97..<123] @ [65..<91] @ [48..<58 :: nat])"
  by code_simp

lemma inClass_iff: "inClass c \<longleftrightarrow> c \<in> set chars \<or> c = CHR ''-'' \<or> c = CHR ''_''"
proof
  assume "c \<in> set chars \<or> c = CHR ''-'' \<or> c = CHR ''_''"
  then show "inClass c" using chars_inClass by (auto simp: inClass_def)
next
  assume a: "inClass c"
  define n where "n = (of_char c :: nat)"
  have c: "c = char_of n" by (simp add: n_def)
  have codes: "char_of k \<in> set chars" if "k \<in> {97..<123} \<union> {65..<91} \<union> {48..<58}" for k :: nat
    using class_codes that unfolding list_all_iff set_append set_upt by blast
  from a consider "n \<in> {97..<123} \<union> {65..<91} \<union> {48..<58}" | "c = CHR ''_'' \<or> c = CHR ''-''"
    by (auto simp: inClass_def n_def Let_def)
  then show "c \<in> set chars \<or> c = CHR ''-'' \<or> c = CHR ''_''"
  proof cases
    case 1 then show ?thesis using codes[of n] c by simp
  next
    case 2 then show ?thesis by auto
  qed
qed

lemma drawCode_unfold:
  "drawCode rs = charAt chars (rs 0) @ charAt chars (rs 1) @ charAt chars (rs 2)
                 @ charAt chars (rs 3) @ charAt chars (rs 4) @ charAt chars (rs 5)"
  by (simp add: drawCode_def upt_rec[of _ 6] del: upt_Suc) (simp add: eval_nat_numeral)

lemma drawCode_cong: "\<forall>i<6. rs i = rs' i \<Longrightarrow> drawCode rs = drawCode rs'"
  by (simp add: drawCode_unfold)

text \<open>One call without a custom code: a free code, the end of the stack, or one call more.\<close>

lemma random_unfold:
  "\<not> truthy c \<Longrightarrow>
   generateShortCode stack db c rs =
     (if has db (drawCode rs)
      then (if stack = 0 then Inl CallStackExceeded
            else generateShortCode (stack - 1) db None (rest rs))
      else Inr (drawCode rs))"
  by (subst generateShortCode.simps) simp

lemma falsy_custom:
  "\<not> truthy c \<Longrightarrow> generateShortCode stack db c rs = generateShortCode stack db None rs"
  using random_unfold[of c stack db rs] random_unfold[of None stack db rs]
  by (simp add: truthy_def)

lemma random_free:
  "\<not> has db (drawCode rs) \<Longrightarrow> generateShortCode stack db None rs = Inr (drawCode rs)"
  by (simp add: random_unfold truthy_def)

lemma random_first_free:
  "\<forall>j<k. has db (drawCode (after j rs)) \<Longrightarrow> \<not> has db (drawCode (after k rs)) \<Longrightarrow> k \<le> stack
   \<Longrightarrow> generateShortCode stack db None rs = Inr (drawCode (after k rs))"
proof (induction k arbitrary: rs stack)
  case 0
  then show ?case by (simp add: random_free after_0)
next
  case (Suc k)
  have c0: "has db (drawCode rs)"
    using Suc.prems(1) after_0 by (metis zero_less_Suc)
  from Suc.prems(3) obtain d where d: "stack = Suc d" "k \<le> d"
    by (cases stack) auto
  have "generateShortCode d db None (rest rs) = Inr (drawCode (after k (rest rs)))"
  proof (rule Suc.IH)
    show "\<forall>j<k. has db (drawCode (after j (rest rs)))"
      using Suc.prems(1) by (metis Suc_less_eq after_Suc)
    show "\<not> has db (drawCode (after k (rest rs)))"
      using Suc.prems(2) by (simp add: after_Suc)
    show "k \<le> d" by (rule d(2))
  qed
  then show ?case
    using c0 d(1) by (simp add: random_unfold truthy_def after_Suc)
qed

lemma random_overflow:
  "\<forall>j\<le>stack. has db (drawCode (after j rs)) \<Longrightarrow>
   generateShortCode stack db None rs = Inl CallStackExceeded"
proof (induction stack arbitrary: rs)
  case 0
  then show ?case by (simp add: random_unfold truthy_def after_0)
next
  case (Suc d)
  have c0: "has db (drawCode rs)"
    using Suc.prems after_0 by (metis le0)
  have "\<forall>j\<le>d. has db (drawCode (after j (rest rs)))"
    using Suc.prems by (metis Suc_le_mono after_Suc)
  from Suc.IH[OF this] c0 show ?case
    by (simp add: random_unfold truthy_def)
qed

lemma random_result:
  assumes "generateShortCode stack db None rs = Inr code"
  shows "\<exists>k\<le>stack. code = drawCode (after k rs) \<and> \<not> has db (drawCode (after k rs))
                  \<and> (\<forall>j<k. has db (drawCode (after j rs)))"
proof (cases "\<forall>j\<le>stack. has db (drawCode (after j rs))")
  case True
  from random_overflow[OF this] assms show ?thesis by simp
next
  case False
  define m where "m = (LEAST k. \<not> has db (drawCode (after k rs)))"
  from False obtain k where k: "k \<le> stack" "\<not> has db (drawCode (after k rs))" by blast
  have free: "\<not> has db (drawCode (after m rs))"
    unfolding m_def using k(2) by (rule LeastI)
  have before: "\<forall>j<m. has db (drawCode (after j rs))"
    unfolding m_def using not_less_Least by blast
  have "m \<le> k"
    unfolding m_def using k(2) by (rule Least_le)
  with k(1) have m: "m \<le> stack" by simp
  from random_first_free[OF before free m] assms have "code = drawCode (after m rs)" by simp
  with free before m show ?thesis by blast
qed

lemma random_error:
  assumes "generateShortCode stack db None rs = Inl e"
  shows "e = CallStackExceeded \<and> (\<forall>j\<le>stack. has db (drawCode (after j rs)))"
proof (cases "\<forall>j\<le>stack. has db (drawCode (after j rs))")
  case True
  from random_overflow[OF this] assms True show ?thesis by simp
next
  case False
  define m where "m = (LEAST k. \<not> has db (drawCode (after k rs)))"
  from False obtain k where k: "k \<le> stack" "\<not> has db (drawCode (after k rs))" by blast
  have free: "\<not> has db (drawCode (after m rs))"
    unfolding m_def using k(2) by (rule LeastI)
  have before: "\<forall>j<m. has db (drawCode (after j rs))"
    unfolding m_def using not_less_Least by blast
  have "m \<le> k"
    unfolding m_def using k(2) by (rule Least_le)
  with k(1) have m: "m \<le> stack" by simp
  from random_first_free[OF before free m] assms show ?thesis by simp
qed

lemma random_returns:
  assumes "k \<le> stack" "\<not> has db (drawCode (after k rs))"
  shows "\<exists>code. generateShortCode stack db None rs = Inr code"
proof (cases "generateShortCode stack db None rs")
  case (Inl e)
  from random_error[OF this] assms show ?thesis by blast
next
  case (Inr code)
  then show ?thesis by blast
qed

text \<open>With room for \<open>stack\<close> nested calls, only the first \<open>stack + 1\<close> rounds are drawn.\<close>

lemma random_draws:
  "\<forall>i < 6 * (stack + 1). rs i = rs' i \<Longrightarrow>
   generateShortCode stack db None rs = generateShortCode stack db None rs'"
proof (induction stack arbitrary: rs rs')
  case 0
  then have "drawCode rs = drawCode rs'" by (intro drawCode_cong) simp
  then show ?case by (simp add: random_unfold truthy_def)
next
  case (Suc d)
  then have dc: "drawCode rs = drawCode rs'" by (intro drawCode_cong) simp
  have "\<forall>i < 6 * (d + 1). rest rs i = rest rs' i"
    using Suc.prems by (simp add: rest_def)
  from Suc.IH[OF this] dc show ?case
    by (simp add: random_unfold truthy_def)
qed

lemma custom_result:
  "truthy c \<Longrightarrow> generateShortCode stack db c rs = Inr code \<Longrightarrow> code = the c \<and> \<not> has db code"
  by (subst (asm) generateShortCode.simps) (simp split: if_splits)

lemma generated_fresh:
  assumes "generateShortCode stack db c rs = Inr code"
  shows "\<not> has db code"
proof (cases "truthy c")
  case True
  with assms show ?thesis by (simp add: custom_result)
next
  case False
  then have "generateShortCode stack db None rs = Inr code"
    using assms falsy_custom by simp
  from random_result[OF this] show ?thesis by auto
qed

lemma generate_errors:
  assumes "generateShortCode stack db c rs = Inl e"
  shows "e = InvalidShortcodeFormat \<or> e = InvalidShortcodeLength \<or> e = ShortcodeCollision
         \<or> e = CallStackExceeded"
proof (cases "truthy c")
  case True
  with assms show ?thesis
    by (subst (asm) generateShortCode.simps) (simp split: if_splits)
next
  case False
  then have "generateShortCode stack db None rs = Inl e"
    using assms falsy_custom by simp
  from random_error[OF this] show ?thesis by blast
qed

text \<open>
  The codes of one round and the sequences of six indices into the alphabet correspond
  one to one.
\<close>

lemma distinct_chars: "distinct chars"
  unfolding chars_def by code_simp

lemma drawCode_nth:
  assumes "length is = 6" "set is \<subseteq> {..<length chars}"
  shows "drawCode (\<lambda>i. is ! i) = map (\<lambda>i. chars ! i) is"
proof -
  from assms have "\<forall>i<6. is ! i < length chars"
    by (auto simp: subset_iff)
  then have "drawCode (\<lambda>i. is ! i) = map (\<lambda>i. chars ! (is ! i)) [0..<6]"
    by (simp add: drawCode_unfold charAt_def upt_rec[of _ 6] del: upt_Suc)
       (simp add: eval_nat_numeral)
  also have "\<dots> = map (\<lambda>i. chars ! i) is"
    using assms(1) by (intro nth_equalityI) simp_all
  finally show ?thesis .
qed

lemma draw_bijection:
  "bij_betw (\<lambda>is. drawCode (\<lambda>i. is ! i))
     {is. length is = 6 \<and> set is \<subseteq> {..<length chars}}
     {code. length code = 6 \<and> set code \<subseteq> set chars}"
proof -
  let ?I = "{is. length is = 6 \<and> set is \<subseteq> {..<length chars}}"
  let ?C = "{code. length code = 6 \<and> set code \<subseteq> set chars}"
  have inj: "inj_on (\<lambda>i. chars ! i) {..<length chars}"
    using distinct_chars by (auto simp: inj_on_def nth_eq_iff_index_eq)
  have "bij_betw (map (\<lambda>i. chars ! i)) ?I ?C"
    unfolding bij_betw_def
  proof
    show "inj_on (map (\<lambda>i. chars ! i)) ?I"
    proof (rule inj_onI)
      fix xs ys
      assume "xs \<in> ?I" "ys \<in> ?I" "map (\<lambda>i. chars ! i) xs = map (\<lambda>i. chars ! i) ys"
      moreover from this have "inj_on (\<lambda>i. chars ! i) (set xs \<union> set ys)"
        using inj by (auto intro: inj_on_subset)
      ultimately show "xs = ys"
        by (simp add: inj_on_map_eq_map)
    qed
    show "map (\<lambda>i. chars ! i) ` ?I = ?C"
    proof (intro set_eqI iffI)
      fix code assume "code \<in> map (\<lambda>i. chars ! i) ` ?I"
      then show "code \<in> ?C" by (auto simp: subset_iff)
    next
      fix code assume c: "code \<in> ?C"
      have "(\<lambda>i. chars ! i) ` {..<length chars} = set chars"
        by (auto simp: in_set_conv_nth)
      with c have "code \<in> lists ((\<lambda>i. chars ! i) ` {..<length chars})"
        by (auto simp only: in_lists_conv_set mem_Collect_eq)
      then obtain xs where xs: "xs \<in> lists {..<length chars}" "code = map (\<lambda>i. chars ! i) xs"
        unfolding lists_image by blast
      with c have "xs \<in> ?I" by auto
      with xs(2) show "code \<in> map (\<lambda>i. chars ! i) ` ?I" by blast
    qed
  qed
  moreover have "drawCode (\<lambda>i. is ! i) = map (\<lambda>i. chars ! i) is" if "is \<in> ?I" for "is"
    using that by (simp add: drawCode_nth)
  ultimately show ?thesis
    by (subst bij_betw_cong[where g = "map (\<lambda>i. chars ! i)"]) simp_all
qed

section \<open>Properties of the handlers\<close>

lemma has_keys: "has m k \<longleftrightarrow> k \<in> set (map fst m)"
  by (simp add: has_def map_of_eq_None_iff)

lemma keys_update: "map fst (AList.update k v m) = (if has m k then map fst m else map fst m @ [k])"
  by (simp add: update_keys has_keys)

lemma update_fresh: "\<not> has m k \<Longrightarrow> AList.update k v m = m @ [(k, v)]"
  by (induction m) (auto simp: has_def)

lemma shorten_failure:
  "shorten parse url custom validity clientIP clk stack rs uuid s = (Inl e, s') \<Longrightarrow> s' = s"
  by (auto simp: shorten_def Let_def split: if_splits option.splits sum.splits)

lemma shorten_success:
  assumes "shorten parse url custom validity clientIP clk stack rs uuid s = (Inr data, s')"
  shows "truthy url \<and> isValidUrl parse (the url)
       \<and> length (userUrls (atFilter clk) clientIP (urlDatabase s)) < 5
       \<and> generateShortCode stack (urlDatabase s) custom rs = Inr (shortCode data)
       \<and> \<not> has (urlDatabase s) (shortCode data)
       \<and> s' = s\<lparr>urlDatabase := urlDatabase s @ [(shortCode data, data)],
                clickAnalytics := AList.update (shortCode data) \<lparr>totalClicks = 0, clicks = []\<rparr>
                                    (clickAnalytics s)\<rparr>"
proof -
  from assms obtain code where g: "generateShortCode stack (urlDatabase s) custom rs = Inr code"
    by (auto simp: shorten_def Let_def split: if_splits option.splits sum.splits)
  from generated_fresh[OF g] have fresh: "\<not> has (urlDatabase s) code" .
  from assms g show ?thesis
    using fresh by (auto simp: shorten_def Let_def update_fresh split: if_splits)
qed

lemma shorten_success_quota:
  "shorten parse url custom validity clientIP clk stack rs uuid s = (Inr data, s')
   \<Longrightarrow> length (userUrls (atFilter clk) clientIP (urlDatabase s)) < 5"
  by (drule shorten_success) blast

lemma shorten_success_fresh:
  "shorten parse url custom validity clientIP clk stack rs uuid s = (Inr data, s')
   \<Longrightarrow> \<not> has (urlDatabase s) (shortCode data)"
  by (drule shorten_success) blast

lemma shorten_success_db:
  "shorten parse url custom validity clientIP clk stack rs uuid s = (Inr data, s')
   \<Longrightarrow> urlDatabase s' = urlDatabase s @ [(shortCode data, data)]"
  by (drule shorten_success) (elim conjE, simp)

lemma shorten_success_analytics:
  "shorten parse url custom validity clientIP clk stack rs uuid s = (Inr data, s')
   \<Longrightarrow> clickAnalytics s' =
         AList.update (shortCode data) \<lparr>totalClicks = 0, clicks = []\<rparr> (clickAnalytics s)"
  by (drule shorten_success) (elim conjE, simp)

lemma shorten_success_fields:
  assumes "shorten parse url custom validity clientIP clk stack rs uuid s = (Inr data, s')"
  shows "createdBy data = clientIP" "createdAt data = atCreated clk"
    "expiryDate data = makeDate (atExpiry clk + validityPeriod data * 60 * 1000)"
    "validityPeriod data = (case validity of None \<Rightarrow> 30 | Some v \<Rightarrow> if v = 0 then 30 else v)"
    "originalUrl data = the url" "ident data = uuid" "isActive data"
  using assms by (auto simp: shorten_def Let_def split: if_splits option.splits sum.splits)

lemma redirect_success_db:
  "redirect code clientIP agent clk r s = (Inr url, s') \<Longrightarrow> urlDatabase s' = urlDatabase s"
  by (auto simp: redirect_def split: option.splits if_splits)

lemma redirect_failure: "redirect code clientIP agent clk r s = (Inl e, s') \<Longrightarrow> s' = s"
  by (auto simp: redirect_def split: option.splits if_splits)

lemma redirect_success:
  assumes "redirect code clientIP agent clk r s = (Inr url, s')"
  shows "\<exists>data a. map_of (urlDatabase s) code = Some data \<and> \<not> isAfter (atCheck clk) (expiryDate data)
           \<and> url = originalUrl data \<and> map_of (clickAnalytics s) code = Some a
           \<and> s' = s\<lparr>clickAnalytics := AList.update code
                  (a\<lparr>totalClicks := totalClicks a + 1,
                     clicks := clicks a @ [\<lparr>timestamp = atClick clk, ip = clientIP, userAgent = agent,
                                            location = getCoarseLocation r\<rparr>]\<rparr>) (clickAnalytics s)\<rparr>"
  using assms by (auto simp: redirect_def split: option.splits if_splits)

text \<open>What a request can do to the state: nothing, one insertion, or one recorded click.\<close>

lemma handle_cases:
  assumes "handle parse req s = (resp, s')"
  obtains (same) "s' = s"
  | (created) url custom validity clientIP clk stack rs uuid data where
      "req = PostShorten url custom validity clientIP clk stack rs uuid"
      "shorten parse url custom validity clientIP clk stack rs uuid s = (Inr data, s')"
      "resp = Shortened data"
  | (clicked) code clientIP agent clk r url where
      "req = GetRedirect code clientIP agent clk r"
      "redirect code clientIP agent clk r s = (Inr url, s')"
      "resp = Redirected url"
proof (cases req)
  case (PostShorten url custom validity clientIP clk stack rs uuid)
  with assms show ?thesis
    using shorten_failure created same
    by (auto split: option.splits sum.splits prod.splits)
next
  case (GetRedirect code clientIP agent clk r)
  with assms show ?thesis
    using redirect_failure clicked same
    by (auto split: option.splits sum.splits prod.splits)
qed (use assms same in \<open>auto split: sum.splits prod.splits\<close>)

lemma during_le: "during t req t' \<Longrightarrow> t \<le> t'"
  by (cases req) (auto intro: order_trans)

lemma shorten_success_stored:
  assumes "shorten parse url custom validity clientIP clk stack rs uuid s = (Inr data, s')"
  shows "map_of (urlDatabase s') (shortCode data) = Some data"
    and "map_of (clickAnalytics s') (shortCode data) = Some \<lparr>totalClicks = 0, clicks = []\<rparr>"
  using shorten_success_db[OF assms] shorten_success_analytics[OF assms]
    shorten_success_fresh[OF assms]
  by (simp_all add: update_conv' has_def map_add_def)

lemma handle_keeps_record:
  assumes "handle parse req s = (resp, s')" "map_of (urlDatabase s) code = Some data"
  shows "map_of (urlDatabase s') code = Some data"
  using assms(1)
proof (cases rule: handle_cases)
  case same
  with assms(2) show ?thesis by simp
next
  case (created url custom validity clientIP clk stack rs uuid d)
  from shorten_success_db[OF created(2)] assms(2) show ?thesis
    by (simp add: map_add_def)
next
  case (clicked c clientIP agent clk r url)
  from redirect_success_db[OF clicked(2)] assms(2) show ?thesis by simp
qed

lemma run_keeps_record:
  "map_of (urlDatabase s) code = Some data
   \<Longrightarrow> map_of (urlDatabase (run parse reqs s)) code = Some data"
proof (induction reqs arbitrary: s)
  case Nil
  then show ?case by simp
next
  case (Cons req reqs)
  obtain resp s1 where h: "handle parse req s = (resp, s1)"
    by (cases "handle parse req s")
  from Cons.IH[OF handle_keeps_record[OF h Cons.prems]] h show ?case by simp
qed

lemma handle_shortened:
  "handle parse req s = (Shortened data, s') \<Longrightarrow>
   \<exists>url custom validity clientIP clk stack rs uuid.
     shorten parse url custom validity clientIP clk stack rs uuid s = (Inr data, s')"
  by (cases req) (auto split: option.splits sum.splits prod.splits, blast)

lemma handle_other_keys:
  assumes "handle parse req s = (resp, s')" "\<forall>data. resp \<noteq> Shortened data"
  shows "map fst (urlDatabase s') = map fst (urlDatabase s)
       \<and> map fst (clickAnalytics s') = map fst (clickAnalytics s)"
  using assms(1)
proof (cases rule: handle_cases)
  case same
  then show ?thesis by simp
next
  case (created url custom validity clientIP clk stack rs uuid d)
  with assms show ?thesis by simp
next
  case (clicked c clientIP agent clk r url)
  from redirect_success[OF clicked(2)] show ?thesis
    by (auto simp: keys_update has_def)
qed

section \<open>Invariants of the reachable states\<close>

lemma keys_reachable: "reachable parse t s \<Longrightarrow> map fst (urlDatabase s) = map fst (clickAnalytics s)"
proof (induction rule: reachable.induct)
  case (start t)
  show ?case by (simp add: initial_def)
next
  case (step t s req t' resp s')
  from step.hyps(3) show ?case
  proof (cases rule: handle_cases)
    case same
    with step.IH show ?thesis by simp
  next
    case (created url custom validity clientIP clk stack rs uuid data)
    from shorten_success_db[OF created(2)] shorten_success_analytics[OF created(2)]
      shorten_success_fresh[OF created(2)] step.IH show ?thesis
      by (simp add: keys_update has_keys)
  next
    case (clicked code clientIP agent clk r url)
    from redirect_success[OF clicked(2)] step.IH show ?thesis
      by (auto simp: keys_update has_def)
  qed
qed

lemma counters_reachable:
  "reachable parse t s \<Longrightarrow> map_of (clickAnalytics s) code = Some a \<Longrightarrow> totalClicks a = length (clicks a)"
proof (induction arbitrary: code a rule: reachable.induct)
  case (start t)
  then show ?case by (simp add: initial_def)
next
  case (step t s req t' resp s')
  from step.hyps(3) show ?case
  proof (cases rule: handle_cases)
    case same
    with step show ?thesis by simp
  next
    case (created url custom validity clientIP clk stack rs uuid data)
    from shorten_success_analytics[OF created(2)] step.prems step.IH show ?thesis
      by (auto simp: update_conv' split: if_splits)
  next
    case (clicked c clientIP agent clk r url)
    from redirect_success[OF clicked(2)] step.prems step.IH show ?thesis
      by (auto simp: update_conv' split: if_splits)
  qed
qed

lemma notAfter_earlier: "notAfter t d \<Longrightarrow> t' \<le> t \<Longrightarrow> notAfter t' d"
  by (auto simp: notAfter_def split: date.splits)

lemma filter_readings:
  "\<forall>i. now i \<le> t \<Longrightarrow>
   length (filter (\<lambda>url. createdBy url = c \<and> notAfter t (expiryDate url)) xs)
     \<le> length (filter (\<lambda>(i, url). createdBy url = c \<and> notAfter (now i) (expiryDate url)) (enumerate n xs))"
proof (induction xs arbitrary: n)
  case Nil
  show ?case by simp
next
  case (Cons x xs)
  from Cons.IH[OF Cons.prems, of "Suc n"] Cons.prems show ?case
    by (auto intro: notAfter_earlier le_SucI)
qed

lemma active_le_userUrls:
  "\<forall>i. now i \<le> t \<Longrightarrow> length (activeFor db c t) \<le> length (userUrls now c db)"
  using filter_readings[of now t c "map snd db" 0] by (simp add: activeFor_def userUrls_def)

lemma active_same_instant: "length (userUrls (\<lambda>i. t) c db) = length (activeFor db c t)"
proof -
  have "length (filter (\<lambda>(i, url). createdBy url = c \<and> notAfter t (expiryDate url)) (enumerate n xs))
        = length (filter (\<lambda>url. createdBy url = c \<and> notAfter t (expiryDate url)) xs)" for n xs
    by (induction xs arbitrary: n) auto
  from this[of 0 "map snd db"] show ?thesis by (simp add: activeFor_def userUrls_def)
qed

lemma quota_reachable:
  "reachable parse t s \<Longrightarrow> t \<le> now \<Longrightarrow> length (activeFor (urlDatabase s) creator now) \<le> 5"
proof (induction arbitrary: now rule: reachable.induct)
  case (start t)
  show ?case by (simp add: initial_def activeFor_def)
next
  case (step t s req t' resp s')
  from during_le[OF step.hyps(2)] step.prems have tn: "t \<le> now" by simp
  from step.hyps(3) show ?case
  proof (cases rule: handle_cases)
    case same
    with step.IH[OF tn] show ?thesis by simp
  next
    case (clicked c clientIP agent clk r url)
    from redirect_success_db[OF clicked(2)] step.IH[OF tn] show ?thesis by simp
  next
    case (created url custom validity clientIP clk stack rs uuid data)
    note db' = shorten_success_db[OF created(2)]
    show ?thesis
    proof (cases "creator = clientIP")
      case False
      moreover note shorten_success_fields(1)[OF created(2)]
      ultimately have "activeFor (urlDatabase s') creator now = activeFor (urlDatabase s) creator now"
        by (simp add: db' activeFor_def)
      with step.IH[OF tn] show ?thesis by simp
    next
      case True
      from step.hyps(2) created(1) step.prems have "\<forall>i. atFilter clk i \<le> now"
        by (auto intro: order_trans)
      from active_le_userUrls[OF this, of "urlDatabase s" clientIP] shorten_success_quota[OF created(2)]
      have "length (activeFor (urlDatabase s) clientIP now) < 5" by simp
      then show ?thesis using True by (simp add: db' activeFor_def)
    qed
  qed
qed

lemma analytics_present:
  "reachable parse t s \<Longrightarrow> has (clickAnalytics s) code = has (urlDatabase s) code"
  by (simp add: has_keys keys_reachable)

section \<open>The example is reachable\<close>

lemma example_steps:
  "handle exampleParse (exampleRequest 0) initial
     = (Shortened (exampleRecord\<lparr>shortCode := ''aaaaaa''\<rparr>), exampleAfter 1)"
  "handle exampleParse (exampleRequest 1) (exampleAfter 1)
     = (Shortened (exampleRecord\<lparr>shortCode := ''bbbbbb''\<rparr>), exampleAfter 2)"
  "handle exampleParse (exampleRequest 2) (exampleAfter 2)
     = (Shortened (exampleRecord\<lparr>shortCode := ''cccccc''\<rparr>), exampleAfter 3)"
  "handle exampleParse (exampleRequest 3) (exampleAfter 3)
     = (Shortened (exampleRecord\<lparr>shortCode := ''dddddd''\<rparr>), exampleAfter 4)"
  "handle exampleParse (exampleRequest 4) (exampleAfter 4)
     = (Shortened (exampleRecord\<lparr>shortCode := ''eeeeee''\<rparr>), exampleAfter 5)"
  by (simp_all add: shorten_def truthy_def isValidUrl_def userUrls_def initial_def Let_def
        random_free drawCode_unfold charAt_def chars_def has_def makeDate_def notAfter_def)

lemma example_reachable_full: "reachable exampleParse 0 (exampleAfter 5)"
proof -
  have d: "during 0 (exampleRequest k) 0" for k
    by simp
  note reachable.start[of exampleParse 0]
  from reachable.step[OF this d example_steps(1)]
  have "reachable exampleParse 0 (exampleAfter 1)" .
  from reachable.step[OF this d example_steps(2)]
  have "reachable exampleParse 0 (exampleAfter 2)" .
  from reachable.step[OF this d example_steps(3)]
  have "reachable exampleParse 0 (exampleAfter 3)" .
  from reachable.step[OF this d example_steps(4)]
  have "reachable exampleParse 0 (exampleAfter 4)" .
  from reachable.step[OF this d example_steps(5)]
  show ?thesis .
qed

lemma example_reachable: "reachable exampleParse 0 exampleState"
  using reachable.step[OF reachable.start[of exampleParse 0] _ example_steps(1)] by simp

lemma example_visit:
  "handle exampleParse exampleVisit exampleState
     = (Redirected ''https://example.com'', exampleClicked)"
  by (simp add: redirect_def isAfter_def getCoarseLocation_def mockLocations_def)

lemma example_reachable_clicked: "reachable exampleParse 1001 exampleClicked"
  using reachable.step[OF example_reachable _ example_visit, of 1001] by simp

lemma example_undated:
  "handle exampleParse exampleUndatedRequest initial = (Shortened exampleUndated, exampleUndatedState)"
  by (simp add: shorten_def truthy_def isValidUrl_def userUrls_def initial_def Let_def
        random_free drawCode_unfold charAt_def chars_def has_def makeDate_def)

lemma example_reachable_undated: "reachable exampleParse 0 exampleUndatedState"
  using reachable.step[OF reachable.start[of exampleParse 0] _ example_undated] by simp

section \<open>The claims\<close>

subsection \<open>C1: validation of a custom code\<close>

text \<open>
  C1, as stated: whenever a custom code is supplied, allocation fails with
  InvalidShortcodeFormat, InvalidShortcodeLength or ShortcodeCollision, or returns the
  custom code unchanged. The empty string is a custom code for which none of the four
  happens: the guard \<open>if (customCode)\<close> takes it for no code at all, and a random code is
  generated instead.
\<close>

theorem C1_empty_custom_code_counterexample:
  "generateShortCode 8000 [] (Some []) (\<lambda>i. 0) = Inr ''aaaaaa''"
  by (subst generateShortCode.simps)
     (simp add: truthy_def has_def drawCode_unfold charAt_def chars_def)

text \<open>
  C1, amended: for every non-empty custom code, allocation fails with InvalidShortcodeFormat
  unless every character is a letter, a digit, a hyphen or an underscore; otherwise with
  InvalidShortcodeLength unless the length is between 3 and 20; otherwise with
  ShortcodeCollision if the registry holds the code; otherwise it returns the custom code
  unchanged. An empty custom code is treated as no custom code.
\<close>

theorem C1_custom_code_validation:
  "(c \<noteq> [] \<longrightarrow>
     generateShortCode stack db (Some c) rs =
       (if \<not> set c \<subseteq> set chars \<union> {CHR ''-'', CHR ''_''} then Inl InvalidShortcodeFormat
        else if length c < 3 \<or> 20 < length c then Inl InvalidShortcodeLength
        else if has db c then Inl ShortcodeCollision
        else Inr c))
   \<and> generateShortCode stack db (Some []) rs = generateShortCode stack db None rs"
proof (intro conjI impI)
  assume c: "c \<noteq> []"
  have "matchesClass c \<longleftrightarrow> set c \<subseteq> set chars \<union> {CHR ''-'', CHR ''_''}"
    using c by (auto simp: matchesClass_def list_all_iff inClass_iff)
  then show "generateShortCode stack db (Some c) rs =
       (if \<not> set c \<subseteq> set chars \<union> {CHR ''-'', CHR ''_''} then Inl InvalidShortcodeFormat
        else if length c < 3 \<or> 20 < length c then Inl InvalidShortcodeLength
        else if has db c then Inl ShortcodeCollision
        else Inr c)"
    using c by (subst generateShortCode.simps) (simp add: truthy_def)
next
  show "generateShortCode stack db (Some []) rs = generateShortCode stack db None rs"
    by (rule falsy_custom) (simp add: truthy_def)
qed

theorem C1_custom_code_validation_witness:
  "generateShortCode 8000 [] (Some ''ab'') (\<lambda>i. 0) = Inl InvalidShortcodeLength
   \<and> generateShortCode 8000 [] (Some ''abc!'') (\<lambda>i. 0) = Inl InvalidShortcodeFormat
   \<and> generateShortCode 8000 [(''aaaaaa'', exampleRecord)] (Some ''aaaaaa'') (\<lambda>i. 0)
       = Inl ShortcodeCollision
   \<and> generateShortCode 8000 [(''aaaaaa'', exampleRecord)] (Some ''my_code-1'') (\<lambda>i. 0)
       = Inr ''my_code-1''"
  using C1_custom_code_validation[of "''ab''" 8000 "[]" "\<lambda>i. 0"]
    C1_custom_code_validation[of "''abc!''" 8000 "[]" "\<lambda>i. 0"]
    C1_custom_code_validation[of "''aaaaaa''" 8000 "[(''aaaaaa'', exampleRecord)]" "\<lambda>i. 0"]
    C1_custom_code_validation[of "''my_code-1''" 8000 "[(''aaaaaa'', exampleRecord)]" "\<lambda>i. 0"]
  by (simp add: chars_def has_def)

subsection \<open>C2: the quota of five active records\<close>

text \<open>
  C2, as stated: for every creator and every time, creation fails with QuotaExceeded when
  the creator has five or more active records. The handler checks the URL first: here the
  creator has five active records and sends no URL, and the failure is MissingUrl.
\<close>

theorem C2_missing_url_counterexample:
  "length (activeFor (urlDatabase (exampleAfter 5)) ''10.0.0.1'' 1000) = 5
   \<and> shorten exampleParse None None None ''10.0.0.1'' (exampleClock 1000) 8000 (\<lambda>i. 0) ''id6''
        (exampleAfter 5)
     = (Inl MissingUrl, exampleAfter 5)"
  by (simp add: activeFor_def notAfter_def shorten_def truthy_def)

text \<open>
  C2, amended: when the creator has five or more records that are still active, creation
  fails and stores nothing: with MissingUrl or InvalidUrl when the URL does not pass its
  own two checks, which come first, and with QuotaExceeded otherwise. So in every reachable
  state, and at every time from then on, no creator has more than five active records.
  Records that have expired, or whose expiry date is an Invalid Date, do not count: with
  fewer than five active records and a URL that passes its checks the quota lets the
  request through, and it fails or succeeds as the allocation of its code does.
\<close>

theorem C2_quota:
  "(5 \<le> length (activeFor (urlDatabase s) clientIP now) \<and> (\<forall>i. atFilter clk i \<le> now) \<longrightarrow>
      shorten parse url custom validity clientIP clk stack rs uuid s =
        (Inl (if \<not> truthy url then MissingUrl
              else if \<not> isValidUrl parse (the url) then InvalidUrl
              else QuotaExceeded), s))
   \<and> (reachable parse t s \<and> t \<le> now \<longrightarrow> length (activeFor (urlDatabase s) creator now) \<le> 5)
   \<and> activeFor db creator now =
       filter (\<lambda>url. createdBy url = creator \<and> (\<exists>e. expiryDate url = Date e \<and> now \<le> e))
         (map snd db)
   \<and> ((\<forall>i. atFilter clk i = now) \<and> length (activeFor (urlDatabase s) clientIP now) < 5
        \<and> truthy url \<and> isValidUrl parse (the url) \<longrightarrow>
        (case generateShortCode stack (urlDatabase s) custom rs of
           Inl e \<Rightarrow>
             shorten parse url custom validity clientIP clk stack rs uuid s = (Inl e, s)
             \<and> e \<noteq> QuotaExceeded
         | Inr code \<Rightarrow>
             (\<exists>data. shortCode data = code
                \<and> fst (shorten parse url custom validity clientIP clk stack rs uuid s) = Inr data
                \<and> map_of (urlDatabase
                     (snd (shorten parse url custom validity clientIP clk stack rs uuid s))) code
                   = Some data)))"
proof (intro conjI impI)
  assume "5 \<le> length (activeFor (urlDatabase s) clientIP now) \<and> (\<forall>i. atFilter clk i \<le> now)"
  then have "5 \<le> length (userUrls (atFilter clk) clientIP (urlDatabase s))"
    using active_le_userUrls[of "atFilter clk" now "urlDatabase s" clientIP] by simp
  then show "shorten parse url custom validity clientIP clk stack rs uuid s =
        (Inl (if \<not> truthy url then MissingUrl
              else if \<not> isValidUrl parse (the url) then InvalidUrl
              else QuotaExceeded), s)"
    by (simp add: shorten_def)
next
  assume "reachable parse t s \<and> t \<le> now"
  then show "length (activeFor (urlDatabase s) creator now) \<le> 5"
    using quota_reachable by blast
next
  have "notAfter now d \<longleftrightarrow> (\<exists>e. d = Date e \<and> now \<le> e)" for d
    by (cases d) (simp_all add: notAfter_def)
  then show "activeFor db creator now =
       filter (\<lambda>url. createdBy url = creator \<and> (\<exists>e. expiryDate url = Date e \<and> now \<le> e))
         (map snd db)"
    by (simp add: activeFor_def)
next
  assume a: "(\<forall>i. atFilter clk i = now) \<and> length (activeFor (urlDatabase s) clientIP now) < 5
        \<and> truthy url \<and> isValidUrl parse (the url)"
  then have "atFilter clk = (\<lambda>i. now)" by auto
  with a have room: "length (userUrls (atFilter clk) clientIP (urlDatabase s)) < 5"
    by (simp add: active_same_instant)
  show "case generateShortCode stack (urlDatabase s) custom rs of
           Inl e \<Rightarrow>
             shorten parse url custom validity clientIP clk stack rs uuid s = (Inl e, s)
             \<and> e \<noteq> QuotaExceeded
         | Inr code \<Rightarrow>
             (\<exists>data. shortCode data = code
                \<and> fst (shorten parse url custom validity clientIP clk stack rs uuid s) = Inr data
                \<and> map_of (urlDatabase
                     (snd (shorten parse url custom validity clientIP clk stack rs uuid s))) code
                   = Some data)"
  proof (cases "generateShortCode stack (urlDatabase s) custom rs")
    case (Inl e)
    from generate_errors[OF this] have "e \<noteq> QuotaExceeded" by auto
    with Inl a room show ?thesis by (simp add: shorten_def)
  next
    case (Inr code)
    with a room obtain data s' where
      ok: "shorten parse url custom validity clientIP clk stack rs uuid s = (Inr data, s')"
      and code: "shortCode data = code"
      by (simp add: shorten_def Let_def)
    from shorten_success_stored(1)[OF ok] ok code Inr show ?thesis by auto
  qed
qed

theorem C2_quota_witness:
  "shorten exampleParse (Some ''https://example.com'') None None ''10.0.0.1''
     (exampleClock 1000) 8000 (\<lambda>i. 0) ''id6'' (exampleAfter 5)
     = (Inl QuotaExceeded, exampleAfter 5)
   \<and> length (activeFor (urlDatabase (exampleAfter 5)) ''10.0.0.1'' 1000) \<le> 5
   \<and> (\<exists>data. shortCode data = ''ffffff''
         \<and> fst (shorten exampleParse (Some ''https://example.com'') None None ''10.0.0.1''
                  (exampleClock 300001) 8000 (\<lambda>i. 5) ''id6'' (exampleAfter 5)) = Inr data)
   \<and> (\<exists>data. shortCode data = ''ffffff''
         \<and> fst (shorten exampleParse (Some ''https://example.com'') None None ''10.0.0.1''
                  (exampleClock 0) 8000 (\<lambda>i. 5) ''id6''
                  \<lparr>urlDatabase = map (\<lambda>c. (c, exampleUndated\<lparr>shortCode := c\<rparr>)) exampleCodes,
                   clickAnalytics = []\<rparr>) = Inr data)"
proof -
  let ?undated = "\<lparr>urlDatabase = map (\<lambda>c. (c, exampleUndated\<lparr>shortCode := c\<rparr>)) exampleCodes,
                   clickAnalytics = []\<rparr>"
  have "5 \<le> length (activeFor (urlDatabase (exampleAfter 5)) ''10.0.0.1'' 1000)"
    by (simp add: activeFor_def notAfter_def)
  then have a: "shorten exampleParse (Some ''https://example.com'') None None ''10.0.0.1''
     (exampleClock 1000) 8000 (\<lambda>i. 0) ''id6'' (exampleAfter 5)
     = (Inl QuotaExceeded, exampleAfter 5)"
    using C2_quota[where s = "exampleAfter 5" and clientIP = "''10.0.0.1''" and now = 1000
                     and clk = "exampleClock 1000" and parse = exampleParse
                     and url = "Some ''https://example.com''" and custom = None
                     and validity = None and stack = 8000 and rs = "\<lambda>i. 0" and uuid = "''id6''"]
    by (simp add: truthy_def isValidUrl_def)
  have b: "length (activeFor (urlDatabase (exampleAfter 5)) ''10.0.0.1'' 1000) \<le> 5"
    using C2_quota[where s = "exampleAfter 5" and parse = exampleParse and t = 0 and now = 1000
                     and creator = "''10.0.0.1''"]
      example_reachable_full by simp
  have expired: "length (activeFor (urlDatabase (exampleAfter 5)) ''10.0.0.1'' 300001) < 5"
    by (simp add: activeFor_def notAfter_def)
  have free: "generateShortCode 8000 (urlDatabase (exampleAfter 5)) None (\<lambda>i. 5) = Inr ''ffffff''"
    by (simp add: random_free drawCode_unfold charAt_def chars_def has_def)
  have "(\<forall>i. atFilter (exampleClock 300001) i = 300001)
        \<and> length (activeFor (urlDatabase (exampleAfter 5)) ''10.0.0.1'' 300001) < 5
        \<and> truthy (Some ''https://example.com'')
        \<and> isValidUrl exampleParse (the (Some ''https://example.com''))"
    using expired by (simp add: truthy_def isValidUrl_def)
  with C2_quota[where s = "exampleAfter 5" and clientIP = "''10.0.0.1''" and now = 300001
                  and clk = "exampleClock 300001" and parse = exampleParse
                  and url = "Some ''https://example.com''" and custom = None
                  and validity = None and stack = 8000 and rs = "\<lambda>i. 5" and uuid = "''id6''"]
  have "case generateShortCode 8000 (urlDatabase (exampleAfter 5)) None (\<lambda>i. 5) of
           Inl e \<Rightarrow>
             shorten exampleParse (Some ''https://example.com'') None None ''10.0.0.1''
               (exampleClock 300001) 8000 (\<lambda>i. 5) ''id6'' (exampleAfter 5)
             = (Inl e, exampleAfter 5)
             \<and> e \<noteq> QuotaExceeded
         | Inr code \<Rightarrow>
             (\<exists>data. shortCode data = code
                \<and> fst (shorten exampleParse (Some ''https://example.com'') None None ''10.0.0.1''
                         (exampleClock 300001) 8000 (\<lambda>i. 5) ''id6'' (exampleAfter 5)) = Inr data
                \<and> map_of (urlDatabase
                     (snd (shorten exampleParse (Some ''https://example.com'') None None
                             ''10.0.0.1'' (exampleClock 300001) 8000 (\<lambda>i. 5) ''id6''
                             (exampleAfter 5)))) code
                   = Some data)"
    by blast
  then have c: "\<exists>data. shortCode data = ''ffffff''
         \<and> fst (shorten exampleParse (Some ''https://example.com'') None None ''10.0.0.1''
                  (exampleClock 300001) 8000 (\<lambda>i. 5) ''id6'' (exampleAfter 5)) = Inr data"
    unfolding free by auto
  have free': "generateShortCode 8000 (urlDatabase ?undated) None (\<lambda>i. 5) = Inr ''ffffff''"
    by (simp add: random_free drawCode_unfold charAt_def chars_def has_def)
  have "(\<forall>i. atFilter (exampleClock 0) i = 0)
        \<and> length (activeFor (urlDatabase ?undated) ''10.0.0.1'' 0) < 5
        \<and> truthy (Some ''https://example.com'')
        \<and> isValidUrl exampleParse (the (Some ''https://example.com''))"
    by (simp add: truthy_def isValidUrl_def activeFor_def notAfter_def)
  with C2_quota[where s = ?undated and clientIP = "''10.0.0.1''" and now = 0
                  and clk = "exampleClock 0" and parse = exampleParse
                  and url = "Some ''https://example.com''" and custom = None
                  and validity = None and stack = 8000 and rs = "\<lambda>i. 5" and uuid = "''id6''"]
  have "case generateShortCode 8000 (urlDatabase ?undated) None (\<lambda>i. 5) of
           Inl e \<Rightarrow>
             shorten exampleParse (Some ''https://example.com'') None None ''10.0.0.1''
               (exampleClock 0) 8000 (\<lambda>i. 5) ''id6'' ?undated
             = (Inl e, ?undated)
             \<and> e \<noteq> QuotaExceeded
         | Inr code \<Rightarrow>
             (\<exists>data. shortCode data = code
                \<and> fst (shorten exampleParse (Some ''https://example.com'') None None ''10.0.0.1''
                         (exampleClock 0) 8000 (\<lambda>i. 5) ''id6'' ?undated) = Inr data
                \<and> map_of (urlDatabase
                     (snd (shorten exampleParse (Some ''https://example.com'') None None
                             ''10.0.0.1'' (exampleClock 0) 8000 (\<lambda>i. 5) ''id6''
                             ?undated))) code
                   = Some data)"
    by blast
  then have d: "\<exists>data. shortCode data = ''ffffff''
         \<and> fst (shorten exampleParse (Some ''https://example.com'') None None ''10.0.0.1''
                  (exampleClock 0) 8000 (\<lambda>i. 5) ''id6'' ?undated) = Inr data"
    unfolding free' by auto
  from a b c d show ?thesis by blast
qed

subsection \<open>C3: validity period and expiry date\<close>

text \<open>
  C3, as stated: the expiry date of the stored record is its creation time plus the
  validity period. The handler reads the clock twice, once for the expiry date and once
  more for \<open>createdAt\<close>. In the first request here the clock moves on by a millisecond
  between the two readings: the record is created at 1 with a validity of 5 minutes, and
  expires at 300000, not at 300001. In the second request the validity is 144000000001
  minutes: the expiry time lies beyond the range of a date, and the record holds an
  Invalid Date, which is no time at all.
\<close>

theorem C3_two_clock_readings_counterexample:
  "(case fst (shorten exampleParse (Some ''https://example.com'') None (Some 5) ''10.0.0.1''
               \<lparr>atFilter = (\<lambda>i. 0), atExpiry = 0, atCreated = 1\<rparr> 8000 (\<lambda>i. 0) ''id1'' initial) of
      Inl e \<Rightarrow> None
    | Inr data \<Rightarrow> Some (createdAt data, validityPeriod data, expiryDate data))
   = Some (1, 5, Date 300000)
   \<and> (300000 :: int) \<noteq> 1 + 5 * 60 * 1000
   \<and> (case fst (shorten exampleParse (Some ''https://example.com'') None (Some 144000000001)
               ''10.0.0.1'' (exampleClock 0) 8000 (\<lambda>i. 0) ''id1'' initial) of
      Inl e \<Rightarrow> None
    | Inr data \<Rightarrow> Some (createdAt data, validityPeriod data, expiryDate data))
   = Some (0, 144000000001, InvalidDate)"
  by (simp add: shorten_def truthy_def isValidUrl_def userUrls_def initial_def Let_def
        random_free drawCode_unfold charAt_def chars_def has_def makeDate_def)

text \<open>
  C3, amended: after every successful creation the record is stored under its code, and
  its validity period is the supplied one when that is not zero and 30 when it is unset or
  zero. Its expiry date is the date built from the clock reading taken for it plus the
  validity period in minutes: that time when it is within 8.64e15 ms of the epoch, and an
  Invalid Date otherwise. \<open>createdAt\<close> is a second, later reading of the clock: a valid
  expiry date is \<open>createdAt\<close> plus the validity period when the clock has not moved
  between the two readings, and is never later than that when the clock does not run
  backwards.
\<close>

theorem C3_validity_and_expiry:
  "shorten parse url custom validity clientIP clk stack rs uuid s = (Inr data, s') \<Longrightarrow>
   map_of (urlDatabase s') (shortCode data) = Some data
   \<and> validityPeriod data = (case validity of None \<Rightarrow> 30 | Some v \<Rightarrow> if v = 0 then 30 else v)
   \<and> expiryDate data =
       (if \<bar>atExpiry clk + validityPeriod data * 60 * 1000\<bar> \<le> 8640000000000000
        then Date (atExpiry clk + validityPeriod data * 60 * 1000) else InvalidDate)
   \<and> createdAt data = atCreated clk
   \<and> (atCreated clk = atExpiry clk
        \<and> \<bar>atExpiry clk + validityPeriod data * 60 * 1000\<bar> \<le> 8640000000000000 \<longrightarrow>
        expiryDate data = Date (createdAt data + validityPeriod data * 60 * 1000))
   \<and> (\<forall>e. atExpiry clk \<le> atCreated clk \<and> expiryDate data = Date e \<longrightarrow>
        e \<le> createdAt data + validityPeriod data * 60 * 1000)"
  using shorten_success_stored(1)[of parse url custom validity clientIP clk stack rs uuid s data s']
    shorten_success_fields(2,3,4)[of parse url custom validity clientIP clk stack rs uuid s data s']
  by (auto simp: makeDate_def split: if_splits)

theorem C3_validity_and_expiry_witness:
  "expiryDate exampleRecord = Date (createdAt exampleRecord + 5 * 60 * 1000)
   \<and> validityPeriod exampleRecord = 5
   \<and> map_of (urlDatabase exampleState) ''aaaaaa'' = Some exampleRecord
   \<and> expiryDate exampleUndated = InvalidDate"
proof -
  have "shorten exampleParse (Some ''https://example.com'') None (Some 5) ''10.0.0.1''
          (exampleClock 0) 8000 (\<lambda>i. 0) ''id1'' initial = (Inr exampleRecord, exampleState)"
    using example_steps(1) by (simp split: sum.splits prod.splits)
  from C3_validity_and_expiry[OF this]
  have a: "expiryDate exampleRecord = Date (createdAt exampleRecord + 5 * 60 * 1000)
      \<and> validityPeriod exampleRecord = 5
      \<and> map_of (urlDatabase exampleState) ''aaaaaa'' = Some exampleRecord"
    by simp
  have "shorten exampleParse (Some ''https://example.com'') None (Some (- 144000000001))
          ''10.0.0.1'' (exampleClock 0) 8000 (\<lambda>i. 0) ''id1'' initial
        = (Inr exampleUndated, exampleUndatedState)"
    using example_undated by (simp split: sum.splits prod.splits)
  from C3_validity_and_expiry[OF this]
  have "expiryDate exampleUndated = InvalidDate"
    by simp
  with a show ?thesis by simp
qed

subsection \<open>C4: resolving a code\<close>

text \<open>
  C4: in every reachable state, resolving a code fails with ShortCodeNotFound when the
  registry has no record for it, fails with ShortCodeExpired carrying the record's expiry
  date when the time read is later than that date, and otherwise adds one to the click
  counter, appends the click and returns the record's original URL. The comparison is the
  handler's \<open>new Date() > expiryDate\<close>: no time is later than an Invalid Date, so a
  record that holds one is resolved at every time.
\<close>

theorem C4_resolve:
  "reachable parse t s \<Longrightarrow>
   (map_of (urlDatabase s) code = None \<longrightarrow>
      redirect code clientIP agent clk r s = (Inl ShortCodeNotFound, s))
   \<and> (\<forall>data. map_of (urlDatabase s) code = Some data \<longrightarrow>
        (if isExpired data (atCheck clk)
         then redirect code clientIP agent clk r s = (Inl (ShortCodeExpired (expiryDate data)), s)
         else \<exists>a. map_of (clickAnalytics s) code = Some a \<and>
                redirect code clientIP agent clk r s =
                  (Inr (originalUrl data),
                   s\<lparr>clickAnalytics :=
                       AList.update code
                         (a\<lparr>totalClicks := totalClicks a + 1,
                            clicks := clicks a @ [\<lparr>timestamp = atClick clk, ip = clientIP,
                                                   userAgent = agent,
                                                   location = getCoarseLocation r\<rparr>]\<rparr>)
                         (clickAnalytics s)\<rparr>)))"
proof (intro conjI allI impI)
  assume "map_of (urlDatabase s) code = None"
  then show "redirect code clientIP agent clk r s = (Inl ShortCodeNotFound, s)"
    by (simp add: redirect_def)
next
  fix data
  assume r: "reachable parse t s" and d: "map_of (urlDatabase s) code = Some data"
  from analytics_present[OF r, of code] d
  obtain a where a: "map_of (clickAnalytics s) code = Some a"
    by (auto simp: has_def)
  with d show "if isExpired data (atCheck clk)
         then redirect code clientIP agent clk r s = (Inl (ShortCodeExpired (expiryDate data)), s)
         else \<exists>a. map_of (clickAnalytics s) code = Some a \<and>
                redirect code clientIP agent clk r s =
                  (Inr (originalUrl data),
                   s\<lparr>clickAnalytics :=
                       AList.update code
                         (a\<lparr>totalClicks := totalClicks a + 1,
                            clicks := clicks a @ [\<lparr>timestamp = atClick clk, ip = clientIP,
                                                   userAgent = agent,
                                                   location = getCoarseLocation r\<rparr>]\<rparr>)
                         (clickAnalytics s)\<rparr>)"
    by (simp add: redirect_def isExpired_def)
qed

theorem C4_resolve_witness:
  "redirect ''zzzzzz'' ''10.0.0.2'' ''curl'' \<lparr>atCheck = 1000, atClick = 1001\<rparr> 2 exampleState
     = (Inl ShortCodeNotFound, exampleState)
   \<and> redirect ''aaaaaa'' ''10.0.0.2'' ''curl'' \<lparr>atCheck = 300001, atClick = 300002\<rparr> 2 exampleState
     = (Inl (ShortCodeExpired (Date 300000)), exampleState)
   \<and> redirect ''aaaaaa'' ''10.0.0.2'' ''curl'' \<lparr>atCheck = 300000, atClick = 300001\<rparr> 2 exampleState
     = (Inr ''https://example.com'',
        exampleState\<lparr>clickAnalytics :=
          [(''aaaaaa'', \<lparr>totalClicks = 1,
                         clicks = [\<lparr>timestamp = 300001, ip = ''10.0.0.2'', userAgent = ''curl'',
                                    location = Some ''Tokyo, JP''\<rparr>]\<rparr>)]\<rparr>)
   \<and> redirect ''aaaaaa'' ''10.0.0.2'' ''curl'' \<lparr>atCheck = 300001, atClick = 300002\<rparr> 2
        exampleUndatedState
     = (Inr ''https://example.com'',
        exampleUndatedState\<lparr>clickAnalytics :=
          [(''aaaaaa'', \<lparr>totalClicks = 1,
                         clicks = [\<lparr>timestamp = 300002, ip = ''10.0.0.2'', userAgent = ''curl'',
                                    location = Some ''Tokyo, JP''\<rparr>]\<rparr>)]\<rparr>)"
  using C4_resolve[OF example_reachable, of "''zzzzzz''" "''10.0.0.2''" "''curl''"
                     "\<lparr>atCheck = 1000, atClick = 1001\<rparr>" 2]
    C4_resolve[OF example_reachable, of "''aaaaaa''" "''10.0.0.2''" "''curl''"
                     "\<lparr>atCheck = 300001, atClick = 300002\<rparr>" 2]
    C4_resolve[OF example_reachable, of "''aaaaaa''" "''10.0.0.2''" "''curl''"
                     "\<lparr>atCheck = 300000, atClick = 300001\<rparr>" 2]
    C4_resolve[OF example_reachable_undated, of "''aaaaaa''" "''10.0.0.2''" "''curl''"
                     "\<lparr>atCheck = 300001, atClick = 300002\<rparr>" 2]
  by (simp add: isExpired_def isAfter_def getCoarseLocation_def mockLocations_def)

subsection \<open>C5: the click counter\<close>

text \<open>
  C5: in every reachable state the click counter of every analytics entry is the length of
  its list of clicks. A successful creation stores an entry with counter 0 and no clicks;
  a successful redirect adds one to the counter of the entry of its code and appends one
  click to it, and leaves the entries of the other codes as they are.
\<close>

theorem C5_click_count:
  "(reachable parse t s \<and> map_of (clickAnalytics s) code = Some a \<longrightarrow>
      totalClicks a = length (clicks a))
   \<and> (shorten parse url custom validity clientIP clk stack rs uuid s = (Inr data, s') \<longrightarrow>
      map_of (clickAnalytics s') (shortCode data) = Some \<lparr>totalClicks = 0, clicks = []\<rparr>)
   \<and> (redirect code clientIP agent rclk r s = (Inr target, s') \<longrightarrow>
      (\<exists>b c. map_of (clickAnalytics s) code = Some b
         \<and> map_of (clickAnalytics s') code
             = Some (b\<lparr>totalClicks := totalClicks b + 1, clicks := clicks b @ [c]\<rparr>)
         \<and> (\<forall>other. other \<noteq> code \<longrightarrow>
               map_of (clickAnalytics s') other = map_of (clickAnalytics s) other)))"
proof (intro conjI impI)
  assume "reachable parse t s \<and> map_of (clickAnalytics s) code = Some a"
  then show "totalClicks a = length (clicks a)"
    using counters_reachable by blast
next
  assume "shorten parse url custom validity clientIP clk stack rs uuid s = (Inr data, s')"
  then show "map_of (clickAnalytics s') (shortCode data) = Some \<lparr>totalClicks = 0, clicks = []\<rparr>"
    by (rule shorten_success_stored(2))
next
  assume "redirect code clientIP agent rclk r s = (Inr target, s')"
  from redirect_success[OF this]
  show "\<exists>b c. map_of (clickAnalytics s) code = Some b
         \<and> map_of (clickAnalytics s') code
             = Some (b\<lparr>totalClicks := totalClicks b + 1, clicks := clicks b @ [c]\<rparr>)
         \<and> (\<forall>other. other \<noteq> code \<longrightarrow>
               map_of (clickAnalytics s') other = map_of (clickAnalytics s) other)"
    by (auto simp: update_conv')
qed

theorem C5_click_count_witness:
  "map_of (clickAnalytics exampleClicked) ''aaaaaa'' = Some exampleEntry
   \<and> totalClicks exampleEntry = length (clicks exampleEntry)
   \<and> map_of (clickAnalytics exampleState) ''aaaaaa'' = Some \<lparr>totalClicks = 0, clicks = []\<rparr>
   \<and> (\<exists>c. exampleEntry = \<lparr>totalClicks = 0 + 1, clicks = [] @ [c]\<rparr>)"
proof -
  have e: "map_of (clickAnalytics exampleClicked) ''aaaaaa'' = Some exampleEntry"
    by simp
  with C5_click_count[of exampleParse 1001 exampleClicked "''aaaaaa''" exampleEntry]
    example_reachable_clicked
  have counted: "totalClicks exampleEntry = length (clicks exampleEntry)"
    by blast
  have "shorten exampleParse (Some ''https://example.com'') None (Some 5) ''10.0.0.1''
          (exampleClock 0) 8000 (\<lambda>i. 0) ''id1'' initial = (Inr exampleRecord, exampleState)"
    using example_steps(1) by (simp split: sum.splits prod.splits)
  with C5_click_count[where parse = exampleParse and s = initial and data = exampleRecord
         and s' = exampleState and url = "Some ''https://example.com''" and custom = None
         and validity = "Some 5" and clientIP = "''10.0.0.1''" and clk = "exampleClock 0"
         and stack = 8000
         and rs = "\<lambda>i. 0" and uuid = "''id1''"]
  have fresh: "map_of (clickAnalytics exampleState) ''aaaaaa'' = Some \<lparr>totalClicks = 0, clicks = []\<rparr>"
    by simp
  have "redirect ''aaaaaa'' ''10.0.0.2'' ''curl'' \<lparr>atCheck = 1000, atClick = 1001\<rparr> 2 exampleState
          = (Inr ''https://example.com'', exampleClicked)"
    using example_visit by (simp split: sum.splits prod.splits)
  with C5_click_count[where s = exampleState and s' = exampleClicked and code = "''aaaaaa''"
         and clientIP = "''10.0.0.2''" and agent = "''curl''"
         and rclk = "\<lparr>atCheck = 1000, atClick = 1001\<rparr>" and r = 2
         and target = "''https://example.com''"]
  obtain b c where b: "map_of (clickAnalytics exampleState) ''aaaaaa'' = Some b"
    and c: "map_of (clickAnalytics exampleClicked) ''aaaaaa''
       = Some (b\<lparr>totalClicks := totalClicks b + 1, clicks := clicks b @ [c]\<rparr>)"
    by blast
  from b have "b = \<lparr>totalClicks = 0, clicks = []\<rparr>"
    by simp
  with c have "exampleEntry = \<lparr>totalClicks = 0 + 1, clicks = [] @ [c]\<rparr>"
    by simp
  then have "\<exists>c. exampleEntry = \<lparr>totalClicks = 0 + 1, clicks = [] @ [c]\<rparr>" ..
  with e counted fresh show ?thesis by blast
qed

subsection \<open>C6: the generated code\<close>

text \<open>
  C6, as stated: a generated code is drawn from the character class of the custom codes,
  hyphen and underscore included. The alphabet of the generator is the 62 letters and
  digits only: whatever the random source and the room on the stack, no code with a hyphen
  or an underscore is ever generated, even into an empty registry.
\<close>

theorem C6_alphabet_counterexample:
  "\<not> (\<exists>stack rs. generateShortCode stack [] None rs = Inr ''ab-c_d'')"
proof
  assume "\<exists>stack rs. generateShortCode stack [] None rs = Inr ''ab-c_d''"
  then obtain stack rs where "generateShortCode stack [] None rs = Inr ''ab-c_d''"
    by blast
  from random_result[OF this] obtain k where "''ab-c_d'' = drawCode (after k rs)"
    by auto
  then have "set ''ab-c_d'' \<subseteq> set chars"
    using set_drawCode[of "after k rs"] by simp
  then show False
    by (simp add: chars_def)
qed

text \<open>
  C6, amended: with no custom code, allocation draws a code of six characters uniformly
  from the 62 letters and digits: the codes of length 6 over this alphabet and the
  sequences of six drawn indices correspond one to one, so the codes are uniform when the
  indices are. Each character is of the custom-code class, but hyphen and underscore are
  never drawn. On a collision with the registry it draws again, one call deeper on the
  stack. Whenever one of the rounds that fit on the call stack draws a code absent from
  the registry, it returns a code; the code it returns was drawn in the first such round,
  has length exactly 6, has only letters and digits, and is absent from the registry.
\<close>

theorem C6_generated_code:
  "(k \<le> stack \<and> \<not> has db (drawCode (after k rs)) \<longrightarrow>
      (\<exists>code. generateShortCode stack db None rs = Inr code))
   \<and> (generateShortCode stack db None rs = Inr code \<longrightarrow>
      (\<exists>j\<le>stack. code = drawCode (after j rs) \<and> (\<forall>i<j. has db (drawCode (after i rs))))
      \<and> \<not> has db code \<and> set code \<subseteq> set chars \<and> list_all inClass code
      \<and> (inRange rs \<longrightarrow> length code = 6 \<and> matchesClass code))
   \<and> length chars = 62
   \<and> bij_betw (\<lambda>is. drawCode (\<lambda>i. is ! i))
        {is. length is = 6 \<and> set is \<subseteq> {..<length chars}}
        {code. length code = 6 \<and> set code \<subseteq> set chars}"
proof (intro conjI impI)
  assume "k \<le> stack \<and> \<not> has db (drawCode (after k rs))"
  then show "\<exists>code. generateShortCode stack db None rs = Inr code"
    using random_returns by blast
next
  assume g: "generateShortCode stack db None rs = Inr code"
  from random_result[OF g] obtain j where j: "j \<le> stack" "code = drawCode (after j rs)"
    "\<not> has db (drawCode (after j rs))" "\<forall>i<j. has db (drawCode (after i rs))"
    by blast
  from j show "\<exists>j\<le>stack. code = drawCode (after j rs) \<and> (\<forall>i<j. has db (drawCode (after i rs)))"
    by blast
  from j show "\<not> has db code"
    by simp
  from j(2) show "set code \<subseteq> set chars"
    using set_drawCode[of "after j rs"] by simp
  from j(2) show inClass: "list_all inClass code"
    using drawCode_inClass[of "after j rs"] by simp
  show "length code = 6" if "inRange rs"
  proof -
    from that have "inRange (after j rs)"
      by (simp add: inRange_def after_apply)
    with j(2) show ?thesis
      by (simp add: length_drawCode)
  qed
  then show "matchesClass code" if "inRange rs"
    using that inClass by (auto simp: matchesClass_def)
next
  show "length chars = 62"
    by (simp add: chars_def)
next
  show "bij_betw (\<lambda>is. drawCode (\<lambda>i. is ! i))
        {is. length is = 6 \<and> set is \<subseteq> {..<length chars}}
        {code. length code = 6 \<and> set code \<subseteq> set chars}"
    by (rule draw_bijection)
qed

lemma drawCode_example: "drawCode (after (Suc 0) (\<lambda>i. if i < 6 then 0 else Suc 0)) = ''bbbbbb''"
  by (simp add: drawCode_unfold after_apply charAt_def chars_def)

theorem C6_generated_code_witness:
  "generateShortCode 8000 [(''aaaaaa'', exampleRecord)] None (\<lambda>i. if i < 6 then 0 else Suc 0)
     = Inr ''bbbbbb''
   \<and> \<not> has [(''aaaaaa'', exampleRecord)] ''bbbbbb'' \<and> length ''bbbbbb'' = 6"
proof -
  let ?db = "[(''aaaaaa'', exampleRecord)]" and ?rs = "\<lambda>i::nat. if i < 6 then 0 else Suc 0"
  have free: "\<not> has ?db (drawCode (after (Suc 0) ?rs))"
    unfolding drawCode_example by (simp add: has_def)
  have first: "has ?db (drawCode (after 0 ?rs))"
    by (simp add: after_0 drawCode_unfold charAt_def chars_def has_def)
  have range: "inRange ?rs"
    by (simp add: inRange_def chars_def)
  from C6_generated_code[of "Suc 0" 8000 ?db ?rs, THEN conjunct1] free
  have "\<exists>code. generateShortCode 8000 ?db None ?rs = Inr code"
    by simp
  then obtain code where code: "generateShortCode 8000 ?db None ?rs = Inr code" ..
  from C6_generated_code[of "Suc 0" 8000 ?db ?rs code, THEN conjunct2, THEN conjunct1] code range
  obtain j where j: "code = drawCode (after j ?rs)" "\<forall>i<j. has ?db (drawCode (after i ?rs))"
    and fresh: "\<not> has ?db code" and len: "length code = 6"
    by blast
  have "j = Suc 0"
  proof (rule ccontr)
    assume "j \<noteq> Suc 0"
    then consider "j = 0" | "Suc 0 < j" by linarith
    then show False
    proof cases
      case 1 with j(1) fresh first show False by simp
    next
      case 2 with j(2) free show False by blast
    qed
  qed
  with j(1) have "code = ''bbbbbb''"
    using drawCode_example by simp
  with code fresh len show ?thesis by simp
qed

subsection \<open>C7: what bounds the retries\<close>

text \<open>
  C7, as stated: allocation fails with CodeSpaceExhausted after a fixed number of draws,
  100 for instance. The function has no counter and no such failure. Here the registry
  holds \<open>aaaaaa\<close> and the call stack has room for 8000 nested calls. When the first 101
  drawn codes are all \<open>aaaaaa\<close>, the call does not fail: it returns the code of the
  102nd draw. When every drawn code is \<open>aaaaaa\<close>, what ends the call is the end of the
  stack.
\<close>

theorem C7_no_retry_cap_counterexample:
  "list_all (\<lambda>j. has [(''aaaaaa'', exampleRecord)]
                      (drawCode (after j (\<lambda>i. if i < 606 then 0 else 1)))) [0..<101]
   \<and> generateShortCode 8000 [(''aaaaaa'', exampleRecord)] None (\<lambda>i. if i < 606 then 0 else 1)
       = Inr ''bbbbbb''
   \<and> generateShortCode 8000 [(''aaaaaa'', exampleRecord)] None (\<lambda>i. 0) = Inl CallStackExceeded"
proof -
  let ?db = "[(''aaaaaa'', exampleRecord)]" and ?rs = "\<lambda>i::nat. if i < 606 then 0 else (1::nat)"
  have coll: "has ?db (drawCode (after j ?rs))" if "j < 101" for j
    using that by (simp add: drawCode_unfold after_apply charAt_def chars_def has_def)
  have last: "drawCode (after 101 ?rs) = ''bbbbbb''"
    by (simp add: drawCode_unfold after_apply charAt_def chars_def)
  have "generateShortCode 8000 ?db None ?rs = Inr (drawCode (after 101 ?rs))"
    by (rule random_first_free) (use coll last in \<open>simp_all add: has_def\<close>)
  moreover have "generateShortCode 8000 ?db None (\<lambda>i. 0) = Inl CallStackExceeded"
    by (rule random_overflow)
       (simp add: drawCode_unfold after_apply charAt_def chars_def has_def)
  ultimately show ?thesis
    using coll last by (simp add: list_all_iff)
qed

text \<open>
  C7, amended: the retries are bounded by the call stack of the engine, not by a cap of
  the code. For every registry state, allocation without a custom code ends after at most
  \<open>d + 1\<close> draws, where \<open>d\<close> is the number of nested calls the call stack has room
  for. It returns the first drawn code that is absent from the registry; when all
  \<open>d + 1\<close> drawn codes are in the registry it fails with the engine's RangeError, not
  with CodeSpaceExhausted, and the handler answers with a failure and stores nothing.
\<close>

theorem C7_stack_bounds_retries:
  "(k \<le> stack \<and> (\<forall>j<k. has db (drawCode (after j rs))) \<and> \<not> has db (drawCode (after k rs)) \<longrightarrow>
      generateShortCode stack db None rs = Inr (drawCode (after k rs)))
   \<and> ((\<forall>j\<le>stack. has db (drawCode (after j rs))) \<longrightarrow>
      generateShortCode stack db None rs = Inl CallStackExceeded)
   \<and> ((\<forall>i < 6 * (stack + 1). rs i = rs' i) \<longrightarrow>
      generateShortCode stack db None rs = generateShortCode stack db None rs')
   \<and> ((\<forall>j\<le>stack. has (urlDatabase s) (drawCode (after j rs))) \<longrightarrow>
      (\<exists>e. shorten parse url None validity clientIP clk stack rs uuid s = (Inl e, s)))"
proof (intro conjI impI)
  assume "k \<le> stack \<and> (\<forall>j<k. has db (drawCode (after j rs))) \<and> \<not> has db (drawCode (after k rs))"
  then show "generateShortCode stack db None rs = Inr (drawCode (after k rs))"
    using random_first_free by blast
next
  assume "\<forall>j\<le>stack. has db (drawCode (after j rs))"
  then show "generateShortCode stack db None rs = Inl CallStackExceeded"
    by (rule random_overflow)
next
  assume "\<forall>i < 6 * (stack + 1). rs i = rs' i"
  then show "generateShortCode stack db None rs = generateShortCode stack db None rs'"
    by (rule random_draws)
next
  assume "\<forall>j\<le>stack. has (urlDatabase s) (drawCode (after j rs))"
  from random_overflow[OF this]
  show "\<exists>e. shorten parse url None validity clientIP clk stack rs uuid s = (Inl e, s)"
    by (simp add: shorten_def)
qed

theorem C7_stack_bounds_retries_witness:
  "generateShortCode 8000 [(''aaaaaa'', exampleRecord)] None (\<lambda>i. 0) = Inl CallStackExceeded
   \<and> generateShortCode 8000 [(''aaaaaa'', exampleRecord)] None (\<lambda>i. if i < 12 then 0 else 2)
       = Inr ''cccccc''
   \<and> generateShortCode 1 [(''aaaaaa'', exampleRecord)] None (\<lambda>i. if i < 12 then 0 else 2)
       = generateShortCode 1 [(''aaaaaa'', exampleRecord)] None (\<lambda>i. 0)
   \<and> shorten exampleParse (Some ''https://example.com'') None None ''10.0.0.2''
        (exampleClock 0) 8000 (\<lambda>i. 0) ''id2'' exampleState
      = (Inl CallStackExceeded, exampleState)"
proof -
  let ?db = "[(''aaaaaa'', exampleRecord)]" and ?rs = "\<lambda>i::nat. if i < 12 then 0 else (2::nat)"
  have all: "\<forall>j\<le>8000. has ?db (drawCode (after j (\<lambda>i. 0)))"
    by (simp add: drawCode_unfold after_apply charAt_def chars_def has_def)
  with C7_stack_bounds_retries[where stack = 8000 and db = ?db and rs = "\<lambda>i. 0"]
  have a: "generateShortCode 8000 ?db None (\<lambda>i. 0) = Inl CallStackExceeded"
    by blast
  have "\<forall>j<2. has ?db (drawCode (after j ?rs))"
    by (simp add: drawCode_unfold after_apply charAt_def chars_def has_def)
  moreover have "drawCode (after 2 ?rs) = ''cccccc''"
    by (simp add: drawCode_unfold after_apply charAt_def chars_def)
  ultimately have b: "generateShortCode 8000 ?db None ?rs = Inr ''cccccc''"
    using C7_stack_bounds_retries[where k = 2 and stack = 8000 and db = ?db and rs = ?rs]
    by (simp add: has_def)
  have "\<forall>i < 6 * (1 + 1). ?rs i = (\<lambda>i. 0) i"
    by simp
  with C7_stack_bounds_retries[where stack = 1 and rs = ?rs and rs' = "\<lambda>i. 0" and db = ?db]
  have c: "generateShortCode 1 ?db None ?rs = generateShortCode 1 ?db None (\<lambda>i. 0)"
    by blast
  from all have "\<forall>j\<le>8000. has (urlDatabase exampleState) (drawCode (after j (\<lambda>i. 0)))"
    by simp
  with C7_stack_bounds_retries[where stack = 8000 and s = exampleState and rs = "\<lambda>i. 0"
         and parse = exampleParse and url = "Some ''https://example.com''"
         and validity = None and clientIP = "''10.0.0.2''" and clk = "exampleClock 0"
         and uuid = "''id2''"]
  obtain e where e: "shorten exampleParse (Some ''https://example.com'') None None ''10.0.0.2''
        (exampleClock 0) 8000 (\<lambda>i. 0) ''id2'' exampleState = (Inl e, exampleState)"
    by blast
  have "fst (shorten exampleParse (Some ''https://example.com'') None None ''10.0.0.2''
        (exampleClock 0) 8000 (\<lambda>i. 0) ''id2'' exampleState) = Inl CallStackExceeded"
    using a by (simp add: shorten_def truthy_def isValidUrl_def userUrls_def)
  with e have d: "shorten exampleParse (Some ''https://example.com'') None None ''10.0.0.2''
        (exampleClock 0) 8000 (\<lambda>i. 0) ''id2'' exampleState = (Inl CallStackExceeded, exampleState)"
    by simp
  from a b c d show ?thesis by blast
qed

subsection \<open>C8: the two maps hold the same codes\<close>

text \<open>
  C8: in every reachable state the registry and the analytics map hold the same codes (in
  the same order), and a code is resolved, or its analytics are answered, exactly when
  both maps have an entry for it. A successful creation adds its code, new to the
  registry, to both maps, with the record and an empty analytics entry; every other
  request leaves the codes of both maps as they are.
\<close>

theorem C8_same_codes:
  "(reachable parse t s \<longrightarrow>
      map fst (urlDatabase s) = map fst (clickAnalytics s)
      \<and> (fst (redirect code clientIP agent clk r s) \<noteq> Inl ShortCodeNotFound
           \<longleftrightarrow> has (urlDatabase s) code \<and> has (clickAnalytics s) code)
      \<and> (getAnalytics code now s \<noteq> Inl ShortCodeNotFound
           \<longleftrightarrow> has (urlDatabase s) code \<and> has (clickAnalytics s) code))
   \<and> (handle parse req s = (resp, s') \<longrightarrow>
        (case resp of
           Shortened data \<Rightarrow>
             \<not> has (urlDatabase s) (shortCode data)
             \<and> set (map fst (urlDatabase s')) = insert (shortCode data) (set (map fst (urlDatabase s)))
             \<and> set (map fst (clickAnalytics s'))
                 = insert (shortCode data) (set (map fst (clickAnalytics s)))
             \<and> map_of (urlDatabase s') (shortCode data) = Some data
             \<and> map_of (clickAnalytics s') (shortCode data) = Some \<lparr>totalClicks = 0, clicks = []\<rparr>
         | _ \<Rightarrow> map fst (urlDatabase s') = map fst (urlDatabase s)
                \<and> map fst (clickAnalytics s') = map fst (clickAnalytics s)))"
proof (intro conjI impI)
  assume r: "reachable parse t s"
  then show "map fst (urlDatabase s) = map fst (clickAnalytics s)"
    by (rule keys_reachable)
  note p = analytics_present[OF r, of code]
  show "fst (redirect code clientIP agent clk r s) \<noteq> Inl ShortCodeNotFound
          \<longleftrightarrow> has (urlDatabase s) code \<and> has (clickAnalytics s) code"
    using p by (auto simp: redirect_def has_def split: option.splits)
  show "getAnalytics code now s \<noteq> Inl ShortCodeNotFound
          \<longleftrightarrow> has (urlDatabase s) code \<and> has (clickAnalytics s) code"
    using p by (auto simp: getAnalytics_def has_def Let_def split: option.splits)
next
  assume h: "handle parse req s = (resp, s')"
  show "case resp of
           Shortened data \<Rightarrow>
             \<not> has (urlDatabase s) (shortCode data)
             \<and> set (map fst (urlDatabase s')) = insert (shortCode data) (set (map fst (urlDatabase s)))
             \<and> set (map fst (clickAnalytics s'))
                 = insert (shortCode data) (set (map fst (clickAnalytics s)))
             \<and> map_of (urlDatabase s') (shortCode data) = Some data
             \<and> map_of (clickAnalytics s') (shortCode data) = Some \<lparr>totalClicks = 0, clicks = []\<rparr>
         | _ \<Rightarrow> map fst (urlDatabase s') = map fst (urlDatabase s)
                \<and> map fst (clickAnalytics s') = map fst (clickAnalytics s)"
  proof (cases "\<exists>data. resp = Shortened data")
    case True
    then obtain data where resp: "resp = Shortened data" ..
    from handle_shortened[OF h[unfolded resp]] obtain url custom validity clientIP clk stack rs uuid
      where ok: "shorten parse url custom validity clientIP clk stack rs uuid s = (Inr data, s')"
      by blast
    from shorten_success_fresh[OF ok] shorten_success_db[OF ok] shorten_success_analytics[OF ok]
      shorten_success_stored[OF ok]
    show ?thesis
      by (auto simp: resp keys_update has_keys)
  next
    case False
    with handle_other_keys[OF h] show ?thesis
      by (cases resp) auto
  qed
qed

theorem C8_same_codes_witness:
  "map fst (urlDatabase (exampleAfter 5)) = exampleCodes
   \<and> map fst (clickAnalytics (exampleAfter 5)) = exampleCodes
   \<and> getAnalytics ''zzzzzz'' 1000 (exampleAfter 5) = Inl ShortCodeNotFound
   \<and> set (map fst (clickAnalytics (exampleAfter 2)))
       = insert ''bbbbbb'' (set (map fst (clickAnalytics (exampleAfter 1))))
   \<and> map fst (clickAnalytics exampleClicked) = map fst (clickAnalytics exampleState)"
proof -
  from C8_same_codes[of exampleParse 0 "exampleAfter 5" "''zzzzzz''" _ _ _ _ 1000]
    example_reachable_full
  have a: "map fst (urlDatabase (exampleAfter 5)) = map fst (clickAnalytics (exampleAfter 5))"
    and b: "getAnalytics ''zzzzzz'' 1000 (exampleAfter 5) \<noteq> Inl ShortCodeNotFound
             \<longleftrightarrow> has (urlDatabase (exampleAfter 5)) ''zzzzzz''
                 \<and> has (clickAnalytics (exampleAfter 5)) ''zzzzzz''"
    by blast+
  from C8_same_codes[of exampleParse _ "exampleAfter 1" _ _ _ _ _ _ "exampleRequest 1"
         "Shortened (exampleRecord\<lparr>shortCode := ''bbbbbb''\<rparr>)" "exampleAfter 2"]
    example_steps(2)
  have c: "set (map fst (clickAnalytics (exampleAfter 2)))
       = insert ''bbbbbb'' (set (map fst (clickAnalytics (exampleAfter 1))))"
    by simp
  from C8_same_codes[of exampleParse _ exampleState _ _ _ _ _ _ exampleVisit
         "Redirected ''https://example.com''" exampleClicked]
    example_visit
  have d: "map fst (clickAnalytics exampleClicked) = map fst (clickAnalytics exampleState)"
    by simp
  from a b c d show ?thesis by (simp add: has_def)
qed

subsection \<open>C9: an expired record stays expired\<close>

text \<open>
  C9: a record that is expired at some time is expired at every later time; and whatever
  requests the server answers, the record stored under a code stays the same record, with
  the same expiry date, so a record that was expired is still expired afterwards.
\<close>

theorem C9_expiry_monotone:
  "(isExpired data t \<and> t < t' \<longrightarrow> isExpired data t')
   \<and> (run parse reqs s = s' \<and> map_of (urlDatabase s) code = Some data
        \<and> isExpired data t \<and> t < t' \<longrightarrow>
        map_of (urlDatabase s') code = Some data \<and> isExpired data t')"
  using run_keeps_record[of s code data parse reqs]
  by (auto simp: isExpired_def isAfter_def split: date.splits)

theorem C9_expiry_monotone_witness:
  "isExpired exampleRecord 300001
   \<and> map_of (urlDatabase (run exampleParse [exampleRequest 1, exampleVisit] (exampleAfter 1)))
        ''aaaaaa'' = Some exampleRecord
   \<and> isExpired exampleRecord 300002"
proof -
  have e: "isExpired exampleRecord 300001"
    by (simp add: isExpired_def isAfter_def)
  from C9_expiry_monotone[of exampleRecord 300001 300002 exampleParse
         "[exampleRequest 1, exampleVisit]" "exampleAfter 1"
         "run exampleParse [exampleRequest 1, exampleVisit] (exampleAfter 1)" "''aaaaaa''"] e
  show ?thesis by simp
qed

subsection \<open>C10: a failed resolve changes nothing\<close>

text \<open>
  C10: whenever resolving a code ends in an error, the registry and the analytics map are
  exactly as before; resolving an unknown code and resolving an expired code do end in an
  error, so neither adds a click or counts one.
\<close>

theorem C10_failed_resolve:
  "(redirect code clientIP agent clk r s = (Inl e, s') \<longrightarrow> s' = s)
   \<and> (handle parse (GetRedirect code clientIP agent clk r) s = (Failure e, s') \<longrightarrow>
        urlDatabase s' = urlDatabase s \<and> clickAnalytics s' = clickAnalytics s)
   \<and> (map_of (urlDatabase s) code = None \<longrightarrow>
        redirect code clientIP agent clk r s = (Inl ShortCodeNotFound, s))
   \<and> (map_of (urlDatabase s) code = Some data \<and> isExpired data (atCheck clk) \<longrightarrow>
        redirect code clientIP agent clk r s = (Inl (ShortCodeExpired (expiryDate data)), s))"
proof -
  have a: "s' = s" if "redirect code clientIP agent clk r s = (Inl e, s')"
    using that by (rule redirect_failure)
  have b: "urlDatabase s' = urlDatabase s \<and> clickAnalytics s' = clickAnalytics s"
    if "handle parse (GetRedirect code clientIP agent clk r) s = (Failure e, s')"
  proof -
    from that have "redirect code clientIP agent clk r s = (Inl e, s')"
      by (auto split: prod.splits sum.splits)
    from redirect_failure[OF this] show ?thesis by simp
  qed
  have c: "redirect code clientIP agent clk r s = (Inl ShortCodeNotFound, s)"
    if "map_of (urlDatabase s) code = None"
    using that by (simp add: redirect_def)
  have d: "redirect code clientIP agent clk r s = (Inl (ShortCodeExpired (expiryDate data)), s)"
    if "map_of (urlDatabase s) code = Some data \<and> isExpired data (atCheck clk)"
    using that by (simp add: redirect_def isExpired_def)
  from a b c d show ?thesis by blast
qed

theorem C10_failed_resolve_witness:
  "redirect ''aaaaaa'' ''10.0.0.2'' ''curl'' \<lparr>atCheck = 300001, atClick = 300002\<rparr> 2 exampleClicked
     = (Inl (ShortCodeExpired (Date 300000)), exampleClicked)
   \<and> redirect ''zzzzzz'' ''10.0.0.2'' ''curl'' \<lparr>atCheck = 1000, atClick = 1001\<rparr> 2 exampleClicked
     = (Inl ShortCodeNotFound, exampleClicked)
   \<and> map_of (clickAnalytics
         (snd (redirect ''aaaaaa'' ''10.0.0.2'' ''curl'' \<lparr>atCheck = 300001, atClick = 300002\<rparr> 2
                 exampleClicked))) ''aaaaaa'' = Some exampleEntry"
proof -
  let ?late = "\<lparr>atCheck = 300001, atClick = 300002\<rparr>"
  from C10_failed_resolve[of "''aaaaaa''" "''10.0.0.2''" "''curl''" ?late 2 exampleClicked _ _ _
         exampleRecord]
  have a: "redirect ''aaaaaa'' ''10.0.0.2'' ''curl'' ?late 2 exampleClicked
     = (Inl (ShortCodeExpired (Date 300000)), exampleClicked)"
    by (simp add: isExpired_def isAfter_def)
  from C10_failed_resolve[of "''zzzzzz''" "''10.0.0.2''" "''curl''"
         "\<lparr>atCheck = 1000, atClick = 1001\<rparr>" 2 exampleClicked]
  have b: "redirect ''zzzzzz'' ''10.0.0.2'' ''curl'' \<lparr>atCheck = 1000, atClick = 1001\<rparr> 2 exampleClicked
     = (Inl ShortCodeNotFound, exampleClicked)"
    by simp
  have "fst (redirect ''aaaaaa'' ''10.0.0.2'' ''curl'' ?late 2 exampleClicked)
          = Inl (ShortCodeExpired (Date 300000))"
    by (simp add: redirect_def isAfter_def)
  then have "redirect ''aaaaaa'' ''10.0.0.2'' ''curl'' ?late 2 exampleClicked
          = (Inl (ShortCodeExpired (Date 300000)),
             snd (redirect ''aaaaaa'' ''10.0.0.2'' ''curl'' ?late 2 exampleClicked))"
    by (simp add: prod_eq_iff)
  with C10_failed_resolve[of "''aaaaaa''" "''10.0.0.2''" "''curl''" ?late 2 exampleClicked
         "ShortCodeExpired (Date 300000)"
         "snd (redirect ''aaaaaa'' ''10.0.0.2'' ''curl'' ?late 2 exampleClicked)"]
  have "snd (redirect ''aaaaaa'' ''10.0.0.2'' ''curl'' ?late 2 exampleClicked) = exampleClicked"
    by blast
  with a b show ?thesis by simp
qed

end
